theory Spec2Isabelle
  imports Complex_Main
begin

section \<open>Python values used by the converter\<close>

text \<open>
  Every \<^verbatim>\<open>raise\<close>, failed \<^verbatim>\<open>assert\<close> and failing built-in of the source is a value
  of \<open>error\<close>.  \<open>Exception msg args\<close> is \<^verbatim>\<open>raise Exception(msg, *args)\<close>; the other
  constructors are the built-in exception classes that the code can run into.
\<close>

datatype error =
    Exception string "string list"
  | AssertionError
  | KeyError
  | IndexError
  | TypeError
  | ValueError
  | OverflowError

subsection \<open>Characters and decimal digits\<close>

definition is_digit :: "char \<Rightarrow> bool" where
  "is_digit c = (c \<in> set ''0123456789'')"

definition digit_val :: "char \<Rightarrow> nat" where
  "digit_val c = length (takeWhile (\<lambda>d. d \<noteq> c) ''0123456789'') mod 10"

definition digit_char :: "nat \<Rightarrow> char" where
  "digit_char n = ''0123456789'' ! (n mod 10)"

definition dec_val :: "string \<Rightarrow> nat" where
  "dec_val ds = foldl (\<lambda>n c. 10 * n + digit_val c) 0 ds"

text \<open>
  A string is a list of characters with code points below 256.  The characters that
  \<^verbatim>\<open>int()\<close> and \<^verbatim>\<open>float()\<close> skip at both ends of a string are the six of ASCII (tab, line
  feed, vertical tab, form feed, carriage return, space) and, above ASCII, the white
  space of Unicode, which both functions replace by a space before they parse: below 256
  these are U+0085 and U+00A0.  The separators U+001C to U+001F are not skipped.
\<close>

definition is_space :: "char \<Rightarrow> bool" where
  "is_space c = (of_char c \<in> set [9, 10, 11, 12, 13, 32, 133, 160 :: nat])"

definition py_strip :: "string \<Rightarrow> string" where
  "py_strip s = rev (dropWhile is_space (rev (dropWhile is_space s)))"

definition lower_char :: "char \<Rightarrow> char" where
  "lower_char c =
     (case map_of (zip ''ABCDEFGHIJKLMNOPQRSTUVWXYZ'' ''abcdefghijklmnopqrstuvwxyz'') c of
        None \<Rightarrow> c
      | Some d \<Rightarrow> d)"

text \<open>
  \<open>read_digits\<close> reads the rest of a Python digit part, \<^verbatim>\<open>digit (["_"] digit)*\<close>: an
  underscore is read only between two digits.  It returns the digits and what follows.
\<close>

fun read_digits :: "string \<Rightarrow> string \<times> string" where
  "read_digits [] = ([], [])"
| "read_digits (c # cs) =
     (if is_digit c then (case read_digits cs of (ds, r) \<Rightarrow> (c # ds, r))
      else if c = CHR ''_'' \<and> cs \<noteq> [] \<and> is_digit (hd cs) then read_digits cs
      else ([], c # cs))"

definition digitpart :: "string \<Rightarrow> string \<times> string" where
  "digitpart s = (case s of [] \<Rightarrow> ([], s) | c # cs \<Rightarrow> if is_digit c then read_digits s else ([], s))"

definition read_sign :: "string \<Rightarrow> bool \<times> string" where
  "read_sign s =
     (case s of
        [] \<Rightarrow> (False, s)
      | c # cs \<Rightarrow> if c = CHR ''-'' then (True, cs) else if c = CHR ''+'' then (False, cs) else (False, s))"

text \<open>
  \<^verbatim>\<open>int(s)\<close> for a string, base ten.  With its default setting the interpreter refuses
  a string of more than 4300 digits with a \<^verbatim>\<open>ValueError\<close>.
\<close>

definition max_str_digits :: nat where
  "max_str_digits = 4300"

definition py_int :: "string \<Rightarrow> error + int" where
  "py_int s =
     (case read_sign (py_strip s) of (neg, u) \<Rightarrow>
        (case digitpart u of (ds, r) \<Rightarrow>
           if ds = [] \<or> r \<noteq> [] \<or> max_str_digits < length ds then Inl ValueError
           else Inr (if neg then - int (dec_val ds) else int (dec_val ds))))"

text \<open>\<^verbatim>\<open>str(n)\<close> for an integer.\<close>

fun str_nat :: "nat \<Rightarrow> string" where
  "str_nat n = (if n < 10 then [digit_char n] else str_nat (n div 10) @ [digit_char n])"

declare str_nat.simps [simp del]

definition str_int :: "int \<Rightarrow> string" where
  "str_int i = (if i < 0 then CHR ''-'' # str_nat (nat (- i)) else str_nat (nat i))"

subsection \<open>Binary64 floating point\<close>

text \<open>
  A Python \<^verbatim>\<open>float\<close> is an IEEE 754 binary64 value: a finite value (held as the rational
  it denotes; \<open>Fin 0\<close> is \<open>+0.0\<close>), negative zero, an infinity or a NaN.  \<open>rnd\<close> rounds an
  exact rational to the nearest binary64 value, ties to even, with gradual underflow and
  overflow to infinity; it is the rounding of \<^verbatim>\<open>float()\<close> and of every arithmetic operation.
\<close>

datatype pyfloat = Fin rat | NegZero | PInf | NInf | NaN

fun bitlen_nat :: "nat \<Rightarrow> nat" where
  "bitlen_nat n = (if n = 0 then 0 else Suc (bitlen_nat (n div 2)))"

declare bitlen_nat.simps [simp del]

definition pow2 :: "int \<Rightarrow> rat" where
  "pow2 e = (if 0 \<le> e then 2 ^ nat e else 1 / 2 ^ nat (- e))"

definition pow10 :: "int \<Rightarrow> rat" where
  "pow10 e = (if 0 \<le> e then 10 ^ nat e else 1 / 10 ^ nat (- e))"

text \<open>\<open>ilog2 q\<close> is \<open>\<lfloor>log\<^sub>2 q\<rfloor>\<close> for a positive rational.\<close>

definition ilog2 :: "rat \<Rightarrow> int" where
  "ilog2 q =
     (if 1 \<le> q then int (bitlen_nat (nat \<lfloor>q\<rfloor>)) - 1
      else - int (bitlen_nat (nat (\<lceil>1 / q\<rceil> - 1))))"

definition round_half_even :: "rat \<Rightarrow> int" where
  "round_half_even q =
     (let f = \<lfloor>q\<rfloor>; d = q - of_int f
      in if d < 1 / 2 then f else if 1 / 2 < d then f + 1 else if even f then f else f + 1)"

definition rnd :: "rat \<Rightarrow> pyfloat" where
  "rnd q =
     (if q = 0 then Fin 0
      else
        let a = \<bar>q\<bar>;
            e = max (ilog2 a) (- 1022);
            u = pow2 (e - 52);
            r = of_int (round_half_even (a / u)) * u
        in if pow2 1024 \<le> r then (if q < 0 then NInf else PInf)
           else if r = 0 then (if q < 0 then NegZero else Fin 0)
           else Fin (if q < 0 then - r else r))"

fun fval :: "pyfloat \<Rightarrow> rat" where
  "fval (Fin q) = q"
| "fval _ = 0"

fun fneg :: "pyfloat \<Rightarrow> bool" where
  "fneg (Fin q) = (q < 0)"
| "fneg NegZero = True"
| "fneg NInf = True"
| "fneg _ = False"

fun is_zero :: "pyfloat \<Rightarrow> bool" where
  "is_zero (Fin q) = (q = 0)"
| "is_zero NegZero = True"
| "is_zero _ = False"

fun is_inf :: "pyfloat \<Rightarrow> bool" where
  "is_inf PInf = True"
| "is_inf NInf = True"
| "is_inf _ = False"

definition signed_zero :: "bool \<Rightarrow> pyfloat" where
  "signed_zero neg = (if neg then NegZero else Fin 0)"

definition signed_inf :: "bool \<Rightarrow> pyfloat" where
  "signed_inf neg = (if neg then NInf else PInf)"

text \<open>\<^verbatim>\<open>x * y\<close>, \<^verbatim>\<open>x + y\<close>, \<^verbatim>\<open>x < y\<close> and \<^verbatim>\<open>x == y\<close> on floats.\<close>

definition fmul :: "pyfloat \<Rightarrow> pyfloat \<Rightarrow> pyfloat" where
  "fmul x y =
     (if x = NaN \<or> y = NaN then NaN
      else if is_inf x \<or> is_inf y then
        (if is_zero x \<or> is_zero y then NaN else signed_inf (fneg x \<noteq> fneg y))
      else if is_zero x \<or> is_zero y then signed_zero (fneg x \<noteq> fneg y)
      else rnd (fval x * fval y))"

definition fadd :: "pyfloat \<Rightarrow> pyfloat \<Rightarrow> pyfloat" where
  "fadd x y =
     (if x = NaN \<or> y = NaN then NaN
      else if is_inf x then (if is_inf y \<and> x \<noteq> y then NaN else x)
      else if is_inf y then y
      else if x = NegZero \<and> y = NegZero then NegZero
      else if fval x + fval y = 0 then Fin 0
      else rnd (fval x + fval y))"

definition flt :: "pyfloat \<Rightarrow> pyfloat \<Rightarrow> bool" where
  "flt x y =
     (if x = NaN \<or> y = NaN then False
      else if x = PInf \<or> y = NInf then False
      else if x = NInf \<or> y = PInf then True
      else fval x < fval y)"

definition feq :: "pyfloat \<Rightarrow> pyfloat \<Rightarrow> bool" where
  "feq x y =
     (if x = NaN \<or> y = NaN then False
      else if is_inf x \<or> is_inf y then x = y
      else fval x = fval y)"

text \<open>
  \<^verbatim>\<open>x % 1.0\<close>: the C \<^verbatim>\<open>fmod\<close> (exact, with the sign of \<open>x\<close>), moved into \<open>[0, 1)\<close> by
  adding the divisor when it is negative; a zero remainder is \<open>+0.0\<close>.
\<close>

definition trunc_zero :: "rat \<Rightarrow> int" where
  "trunc_zero q = (if q < 0 then - \<lfloor>- q\<rfloor> else \<lfloor>q\<rfloor>)"

definition fmod1 :: "pyfloat \<Rightarrow> pyfloat" where
  "fmod1 x =
     (case x of
        Fin q \<Rightarrow>
          (let m = q - of_int (trunc_zero q)
           in if m = 0 then Fin 0 else if m < 0 then rnd (m + 1) else Fin m)
      | NegZero \<Rightarrow> Fin 0
      | _ \<Rightarrow> NaN)"

text \<open>\<^verbatim>\<open>int(x)\<close> for a float, \<^verbatim>\<open>float(i)\<close> for an integer, and \<^verbatim>\<open>i / j\<close> on integers.\<close>

definition int_of_float :: "pyfloat \<Rightarrow> error + int" where
  "int_of_float x =
     (case x of
        Fin q \<Rightarrow> Inr (trunc_zero q)
      | NegZero \<Rightarrow> Inr 0
      | NaN \<Rightarrow> Inl ValueError
      | _ \<Rightarrow> Inl OverflowError)"

definition finite_or_overflow :: "pyfloat \<Rightarrow> error + pyfloat" where
  "finite_or_overflow x = (if is_inf x then Inl OverflowError else Inr x)"

definition float_of_int :: "int \<Rightarrow> error + pyfloat" where
  "float_of_int i = finite_or_overflow (rnd (of_int i))"

definition int_truediv :: "int \<Rightarrow> int \<Rightarrow> error + pyfloat" where
  "int_truediv i j = finite_or_overflow (rnd (of_int i / of_int j))"

text \<open>
  \<^verbatim>\<open>float(s)\<close> for a string: optional sign, then \<^verbatim>\<open>inf\<close>, \<^verbatim>\<open>infinity\<close> or \<^verbatim>\<open>nan\<close> in any
  case, or a decimal literal with an optional exponent.  \<open>parse_decimal\<close> returns the
  digits of the mantissa as a number and the power of ten that scales it.
\<close>

definition parse_exponent :: "string \<Rightarrow> int option" where
  "parse_exponent r =
     (case r of
        [] \<Rightarrow> Some 0
      | c # cs \<Rightarrow>
          if c = CHR ''e'' \<or> c = CHR ''E'' then
            (case read_sign cs of (neg, u) \<Rightarrow>
               (case digitpart u of (ds, r') \<Rightarrow>
                  if ds = [] \<or> r' \<noteq> [] then None
                  else Some (if neg then - int (dec_val ds) else int (dec_val ds))))
          else None)"

definition parse_decimal :: "string \<Rightarrow> (nat \<times> int) option" where
  "parse_decimal u =
     (case digitpart u of (ip, r1) \<Rightarrow>
        (case (case r1 of
                 [] \<Rightarrow> ([], r1)
               | c # cs \<Rightarrow> if c = CHR ''.'' then digitpart cs else ([], r1)) of
           (fp, r2) \<Rightarrow>
             if ip = [] \<and> fp = [] then None
             else (case parse_exponent r2 of
                     None \<Rightarrow> None
                   | Some e \<Rightarrow> Some (dec_val (ip @ fp), e - int (length fp)))))"

definition py_float :: "string \<Rightarrow> error + pyfloat" where
  "py_float s =
     (case read_sign (py_strip s) of (neg, u) \<Rightarrow>
        if map lower_char u = ''inf'' \<or> map lower_char u = ''infinity'' then Inr (signed_inf neg)
        else if map lower_char u = ''nan'' then Inr NaN
        else (case parse_decimal u of
                None \<Rightarrow> Inl ValueError
              | Some (m, k) \<Rightarrow>
                  if m = 0 then Inr (signed_zero neg)
                  else Inr (rnd ((if neg then - 1 else 1) * of_nat m * pow10 k))))"

text \<open>
  \<^verbatim>\<open>"{:.3f}".format(x)\<close>: the exact value of the float rounded to three decimals, ties to
  even, the sign kept even when the digits are all zero.
\<close>

definition fixed3 :: "rat \<Rightarrow> string" where
  "fixed3 q =
     (let n = nat (round_half_even (q * 1000))
      in str_nat (n div 1000) @ ''.'' @
         [digit_char (n div 100), digit_char (n div 10), digit_char n])"

definition format_3f :: "pyfloat \<Rightarrow> string" where
  "format_3f x =
     (case x of
        Fin q \<Rightarrow> if q < 0 then CHR ''-'' # fixed3 (- q) else fixed3 q
      | NegZero \<Rightarrow> ''-0.000''
      | PInf \<Rightarrow> ''inf''
      | NInf \<Rightarrow> ''-inf''
      | NaN \<Rightarrow> ''nan'')"

text \<open>The same format applied to an integer converts it to a float first.\<close>

definition format_3f_int :: "int \<Rightarrow> error + string" where
  "format_3f_int i = (case float_of_int i of Inl e \<Rightarrow> Inl e | Inr x \<Rightarrow> Inr (format_3f x))"

section \<open>Magnitude and time converters\<close>

text \<open>
  \<^verbatim>\<open>re.search("(e|E)([-+]?[0-9]+)", val_str)\<close>: the second group of the leftmost match,
  if there is one.  At an \<^verbatim>\<open>e\<close> the sign is optional and the digits are taken greedily.
\<close>

definition exp_group :: "string \<Rightarrow> string option" where
  "exp_group cs =
     (case cs of
        [] \<Rightarrow> None
      | c # ds \<Rightarrow>
          if (c = CHR ''-'' \<or> c = CHR ''+'') \<and> takeWhile is_digit ds \<noteq> []
          then Some (c # takeWhile is_digit ds)
          else if takeWhile is_digit cs \<noteq> [] then Some (takeWhile is_digit cs)
          else None)"

fun match_p10 :: "string \<Rightarrow> string option" where
  "match_p10 [] = None"
| "match_p10 (c # cs) =
     (if c = CHR ''e'' \<or> c = CHR ''E'' then
        (case exp_group cs of Some g \<Rightarrow> Some g | None \<Rightarrow> match_p10 cs)
      else match_p10 cs)"

text \<open>
  \<^verbatim>\<open>re.search("\\.([0-9]*[1-9])", val_str)\<close>: the group of the leftmost match.  After a
  dot the digits are taken greedily and given back until the last one is not a zero, so
  the group is the run of digits after the dot without its trailing zeros; a run with
  no non-zero digit does not match.
\<close>

definition strip_trailing_zeros :: "string \<Rightarrow> string" where
  "strip_trailing_zeros ds = rev (dropWhile (\<lambda>c. c = CHR ''0'') (rev ds))"

fun match_sig_figs :: "string \<Rightarrow> string option" where
  "match_sig_figs [] = None"
| "match_sig_figs (c # cs) =
     (if c = CHR ''.'' \<and> strip_trailing_zeros (takeWhile is_digit cs) \<noteq> []
      then Some (strip_trailing_zeros (takeWhile is_digit cs))
      else match_sig_figs cs)"

definition get_decimal_sig_figs :: "string \<Rightarrow> error + int" where
  "get_decimal_sig_figs val_str =
     (case (case match_p10 val_str of None \<Rightarrow> Inr 0 | Some g \<Rightarrow> py_int g) of
        Inl e \<Rightarrow> Inl e
      | Inr p10 \<Rightarrow>
          (let explicit_sig_figs =
                 (case match_sig_figs val_str of None \<Rightarrow> 0 | Some g \<Rightarrow> int (length g))
           in Inr (explicit_sig_figs - p10)))"

definition micro_sign :: char where
  "micro_sign = char_of (181 :: nat)"

definition convert_volts :: "string \<Rightarrow> error + string \<times> string" where
  "convert_volts val_str =
     (case get_decimal_sig_figs val_str of
        Inl e \<Rightarrow> Inl e
      | Inr decimal_sig_figs \<Rightarrow>
          (case py_float val_str of
             Inl e \<Rightarrow> Inl e
           | Inr num \<Rightarrow>
               if flt num (Fin 1) \<or> decimal_sig_figs > 3
               then Inr (format_3f (fmul num (Fin 1000)), ''mV'')
               else Inr (format_3f num, ''V'')))"

definition convert_amps :: "string \<Rightarrow> error + string \<times> string" where
  "convert_amps val_str =
     (case get_decimal_sig_figs val_str of
        Inl e \<Rightarrow> Inl e
      | Inr decimal_sig_figs \<Rightarrow>
          (case py_float val_str of
             Inl e \<Rightarrow> Inl e
           | Inr num \<Rightarrow>
               if flt num (rnd (1 / 10 ^ 9)) \<or> decimal_sig_figs > 12
               then Inr (format_3f (fmul num (Fin (10 ^ 12))), ''pA'')
               else if flt num (rnd (1 / 10 ^ 6)) \<or> decimal_sig_figs > 9
               then Inr (format_3f (fmul num (Fin (10 ^ 9))), ''nA'')
               else if flt num (rnd (1 / 10 ^ 3)) \<or> decimal_sig_figs > 6
               then Inr (format_3f (fmul num (Fin (10 ^ 6))), [micro_sign, CHR ''A''])
               else if flt num (Fin 1) \<or> decimal_sig_figs > 3
               then Inr (format_3f (fmul num (Fin (10 ^ 3))), ''mA'')
               else Inr (format_3f num, ''A'')))"

definition convert_watts :: "string \<Rightarrow> error + string \<times> string" where
  "convert_watts val_str =
     (case get_decimal_sig_figs val_str of
        Inl e \<Rightarrow> Inl e
      | Inr decimal_sig_figs \<Rightarrow>
          (case py_float val_str of
             Inl e \<Rightarrow> Inl e
           | Inr num \<Rightarrow>
               if flt num (rnd (1 / 10 ^ 3)) \<or> decimal_sig_figs > 6
               then Inr (format_3f (fmul num (Fin (10 ^ 6))), [micro_sign, CHR ''W''])
               else if flt num (Fin 1) \<or> decimal_sig_figs > 3
               then Inr (format_3f (fmul num (Fin (10 ^ 3))), ''mW'')
               else Inr (format_3f num, ''W'')))"

definition convert_ohms :: "string \<Rightarrow> error + string \<times> string" where
  "convert_ohms val_str =
     (case get_decimal_sig_figs val_str of
        Inl e \<Rightarrow> Inl e
      | Inr decimal_sig_figs \<Rightarrow>
          (case py_float val_str of
             Inl e \<Rightarrow> Inl e
           | Inr num \<Rightarrow>
               if flt num (rnd (1 / 10 ^ 3)) \<or> decimal_sig_figs > 6
               then Inr (format_3f (fmul num (Fin (10 ^ 6))), micro_sign # ''Ohms'')
               else if flt num (Fin 1) \<or> decimal_sig_figs > 3
               then Inr (format_3f (fmul num (Fin (10 ^ 3))), ''mOhms'')
               else if flt num (Fin (10 ^ 3)) \<or> decimal_sig_figs > 0
               then Inr (format_3f num, ''Ohms'')
               else if flt num (Fin (10 ^ 6)) \<or> decimal_sig_figs > - 3
               then Inr (format_3f (fmul num (rnd (1 / 10 ^ 3))), ''kOhms'')
               else Inr (format_3f (fmul num (rnd (1 / 10 ^ 6))), ''MOhms'')))"

text \<open>\<^verbatim>\<open>time_str.split(":")\<close>.\<close>

fun split_colon :: "string \<Rightarrow> string list" where
  "split_colon [] = [[]]"
| "split_colon (c # cs) =
     (if c = CHR '':'' then [] # split_colon cs
      else (case split_colon cs of [] \<Rightarrow> [[c]] | p # ps \<Rightarrow> (c # p) # ps))"

definition part_float :: "string \<Rightarrow> error + pyfloat" where
  "part_float s = (if s = [] then Inr (Fin 0) else py_float s)"

definition convert_time_parts :: "pyfloat \<Rightarrow> pyfloat \<Rightarrow> pyfloat \<Rightarrow> error + string \<times> string" where
  "convert_time_parts hours mins secs =
     (if feq mins (Fin 0) \<and> feq secs (Fin 0) then
        (case int_of_float hours of
           Inl e \<Rightarrow> Inl e
         | Inr h \<Rightarrow> (case format_3f_int h of Inl e \<Rightarrow> Inl e | Inr v \<Rightarrow> Inr (v, ''hr'')))
      else if feq secs (Fin 0) then
        (case int_of_float (fadd (fmul hours (Fin 60)) mins) of
           Inl e \<Rightarrow> Inl e
         | Inr total_time_min \<Rightarrow>
             (case format_3f_int total_time_min of Inl e \<Rightarrow> Inl e | Inr v \<Rightarrow> Inr (v, ''mn'')))
      else if feq (fmod1 secs) (Fin 0) then
        (case int_of_float
                (fadd (fadd (fmul (fmul hours (Fin 60)) (Fin 60)) (fmul mins (Fin 60))) secs) of
           Inl e \<Rightarrow> Inl e
         | Inr total_time_sec \<Rightarrow>
             (case format_3f_int total_time_sec of Inl e \<Rightarrow> Inl e | Inr v \<Rightarrow> Inr (v, ''s'')))
      else
        (case int_of_float
                (fadd (fadd (fmul (fmul (fmul hours (Fin 60)) (Fin 60)) (Fin 1000))
                            (fmul (fmul mins (Fin 60)) (Fin 1000)))
                      (fmul secs (Fin 1000))) of
           Inl e \<Rightarrow> Inl e
         | Inr total_time_ms \<Rightarrow>
             if of_int total_time_ms < (10 ^ 10 :: rat) then
               (case format_3f_int total_time_ms of Inl e \<Rightarrow> Inl e | Inr v \<Rightarrow> Inr (v, ''ms''))
             else
               (case int_truediv total_time_ms 1000 of
                  Inl e \<Rightarrow> Inl e
                | Inr total_time_sec \<Rightarrow> Inr (format_3f total_time_sec, ''s''))))"

definition convert_time :: "string \<Rightarrow> error + string \<times> string" where
  "convert_time time_str =
     (case split_colon time_str of
        [hour_str, min_str, sec_str] \<Rightarrow>
          (case part_float hour_str of
             Inl e \<Rightarrow> Inl e
           | Inr hours \<Rightarrow>
               (case part_float min_str of
                  Inl e \<Rightarrow> Inl e
                | Inr mins \<Rightarrow>
                    (case part_float sec_str of
                       Inl e \<Rightarrow> Inl e
                     | Inr secs \<Rightarrow> convert_time_parts hours mins secs)))
      | _ \<Rightarrow> Inl ValueError)"

section \<open>Source steps and sequence records\<close>

text \<open>
  The parsed procedure tree.  An element that may occur several times (\<^verbatim>\<open>EndEntry\<close>,
  \<^verbatim>\<open>ReportEntry\<close>) is parsed to nothing, to one dictionary or to a list of dictionaries;
  the code tells the three apart with \<^verbatim>\<open>isinstance\<close>.  The text of an empty element
  (\<^verbatim>\<open>StepMode\<close>, \<^verbatim>\<open>StepValue\<close>) is \<^verbatim>\<open>None\<close>.  The key \<^verbatim>\<open>Value\<close> of a report entry is the
  field \<open>ReportValue\<close>.
\<close>

datatype 'a entries = NoEntry | OneEntry 'a | EntryList "'a list"

record end_entry =
  EndType :: string
  Oper :: string
  Step :: string
  Value :: string

record report_entry =
  ReportType :: string
  ReportValue :: string

record test_step =
  StepType :: string
  StepMode :: "string option"
  StepValue :: "string option"
  Ends :: "end_entry entries"
  Reports :: "report_entry entries"

text \<open>
  A sequence record is a dictionary from field names to integers and strings.  The
  field names the code builds with \<^verbatim>\<open>format\<close> are the constructors with a number:
  \<open>lim_seq n\<close> is \<^verbatim>\<open>"lim{}_seq".format(n)\<close>, and so on.  \<open>seq_type\<close> is the key \<^verbatim>\<open>"type"\<close>,
  \<open>Apply_I_C\<close> is \<^verbatim>\<open>"Apply I/C"\<close>, \<open>charge_discharge\<close> is \<^verbatim>\<open>"charge/discharge"\<close>, and
  \<open>other\<close> holds every field of the template that the code never writes.
\<close>

datatype val = VInt int | VStr string

datatype key =
    Ns | seq_type | Apply_I_C | N | charge_discharge
  | ctrl1_val | ctrl1_val_unit | ctrl1_val_vs
  | lim_nb | lim_seq nat | lim_action nat | lim_type nat
  | lim_value nat | lim_value_unit nat | lim_comp nat
  | rec_nb | rec_type nat | rec_value nat | rec_value_unit nat
  | loop_repeat | ctrl_seq | other string

type_synonym seq = "key \<rightharpoonup> val"

definition END_SEQ_NUM :: int where
  "END_SEQ_NUM = 9999"

text \<open>
  The record template \<^verbatim>\<open>self.blank_seq\<close> is read from a schema file that is not among
  the sources, so every function below takes it as the parameter \<open>blank_seq\<close>.
\<close>

section \<open>Step compiler\<close>

definition entries_list :: "'a entries \<Rightarrow> 'a list" where
  "entries_list es = (case es of NoEntry \<Rightarrow> [] | OneEntry e \<Rightarrow> [e] | EntryList l \<Rightarrow> l)"

definition operator_map :: "string \<rightharpoonup> string" where
  "operator_map = [''>='' \<mapsto> ''>'', ''<='' \<mapsto> ''<'']"

definition newline :: char where
  "newline = char_of (10 :: nat)"

definition goto_error :: "int \<Rightarrow> int \<Rightarrow> int \<Rightarrow> int \<Rightarrow> error" where
  "goto_error step_num goto_lower_bound goto_step_num end_step_num =
     Exception
       (''GOTO in step '' @ str_int step_num @ '' to location that could break loop.'' @
        newline # ''GOTO Lowerbound: '' @ str_int goto_lower_bound @
        newline # ''GOTO target step num: '' @ str_int goto_step_num @
        newline # ''GOTO upperbound (end): '' @ str_int end_step_num) []"

text \<open>
  The body of the loop over the end entries.  \<^verbatim>\<open>operator_map[end_oper]\<close> is a dictionary
  subscript: an operator that is not a key raises \<^verbatim>\<open>KeyError\<close>, and a value of the
  dictionary is never \<^verbatim>\<open>None\<close>, so the \<^verbatim>\<open>raise\<close> under \<^verbatim>\<open>is None\<close> is never reached.
\<close>

definition proc_end_entry ::
  "int \<Rightarrow> (int \<rightharpoonup> int) \<Rightarrow> int \<Rightarrow> int \<Rightarrow> nat \<Rightarrow> end_entry \<Rightarrow> seq \<Rightarrow> error + seq" where
  "proc_end_entry step_num seq_from_step_num goto_lower_bound end_step_num lim_num e new_seq =
     (case py_int (Step e) of
        Inl err \<Rightarrow> Inl err
      | Inr goto_step_num \<Rightarrow>
          if goto_step_num < goto_lower_bound \<or> goto_step_num > end_step_num
          then Inl (goto_error step_num goto_lower_bound goto_step_num end_step_num)
          else
            (case seq_from_step_num goto_step_num of
               None \<Rightarrow> Inl AssertionError
             | Some goto_seq \<Rightarrow>
                 (let s1 = new_seq(lim_seq lim_num \<mapsto> VInt goto_seq);
                      s2 = (if goto_step_num \<noteq> step_num + 1
                            then s1(lim_action lim_num \<mapsto> VStr ''Goto sequence'') else s1)
                  in if EndType e = ''StepTime'' then
                       (if Oper e \<noteq> ''=''
                        then Inl (Exception ''Unsupported StepTime operator in EndEntry'' [Oper e])
                        else
                          (case convert_time (Value e) of
                             Inl err \<Rightarrow> Inl err
                           | Inr (lim_value_s, lim_value_unit_s) \<Rightarrow>
                               Inr (s2(lim_type lim_num \<mapsto> VStr ''Time'',
                                       lim_value_unit lim_num \<mapsto> VStr lim_value_unit_s,
                                       lim_value lim_num \<mapsto> VStr lim_value_s,
                                       lim_comp lim_num \<mapsto> VStr ''>''))))
                     else if EndType e = ''Voltage'' then
                       (case operator_map (Oper e) of
                          None \<Rightarrow> Inl KeyError
                        | Some dest_oper \<Rightarrow>
                            (case convert_volts (Value e) of
                               Inl err \<Rightarrow> Inl err
                             | Inr (lim_value_s, lim_value_unit_s) \<Rightarrow>
                                 Inr (s2(lim_comp lim_num \<mapsto> VStr dest_oper,
                                         lim_type lim_num \<mapsto> VStr ''Voltage'',
                                         lim_value lim_num \<mapsto> VStr lim_value_s,
                                         lim_value_unit lim_num \<mapsto> VStr lim_value_unit_s))))
                     else if EndType e = ''Current'' then
                       (case operator_map (Oper e) of
                          None \<Rightarrow> Inl KeyError
                        | Some dest_oper \<Rightarrow>
                            (case convert_amps (Value e) of
                               Inl err \<Rightarrow> Inl err
                             | Inr (lim_value_s, lim_value_unit_s) \<Rightarrow>
                                 Inr (s2(lim_comp lim_num \<mapsto> VStr dest_oper,
                                         lim_type lim_num \<mapsto> VStr ''Current'',
                                         lim_value lim_num \<mapsto> VStr lim_value_s,
                                         lim_value_unit lim_num \<mapsto> VStr lim_value_unit_s))))
                     else Inl (Exception ''Unsupported EndType'' [EndType e]))))"

text \<open>\<^verbatim>\<open>for idx, end_entry in enumerate(end_entries_list)\<close>, with \<open>lim_num = idx + 1\<close>.\<close>

fun proc_end_entries ::
  "int \<Rightarrow> (int \<rightharpoonup> int) \<Rightarrow> int \<Rightarrow> int \<Rightarrow> nat \<Rightarrow> end_entry list \<Rightarrow> seq \<Rightarrow> error + seq" where
  "proc_end_entries step_num m lb end_step_num lim_num [] new_seq = Inr new_seq"
| "proc_end_entries step_num m lb end_step_num lim_num (e # es) new_seq =
     (case proc_end_entry step_num m lb end_step_num lim_num e new_seq of
        Inl err \<Rightarrow> Inl err
      | Inr s \<Rightarrow> proc_end_entries step_num m lb end_step_num (Suc lim_num) es s)"

definition proc_report :: "nat \<Rightarrow> report_entry \<Rightarrow> seq \<Rightarrow> error + seq" where
  "proc_report rec_number report new_seq =
     (if ReportType report = ''StepTime'' then
        (case convert_time (ReportValue report) of
           Inl err \<Rightarrow> Inl err
         | Inr (rec_value_s, rec_value_unit_s) \<Rightarrow>
             Inr (new_seq(rec_type rec_number \<mapsto> VStr ''Time'',
                          rec_value rec_number \<mapsto> VStr rec_value_s,
                          rec_value_unit rec_number \<mapsto> VStr rec_value_unit_s)))
      else if ReportType report = ''Voltage'' then
        (case convert_volts (ReportValue report) of
           Inl err \<Rightarrow> Inl err
         | Inr (rec_value_s, rec_value_unit_s) \<Rightarrow>
             Inr (new_seq(rec_type rec_number \<mapsto> VStr ''Voltage'',
                          rec_value rec_number \<mapsto> VStr rec_value_s,
                          rec_value_unit rec_number \<mapsto> VStr rec_value_unit_s)))
      else if ReportType report = ''Current'' then
        (case convert_amps (ReportValue report) of
           Inl err \<Rightarrow> Inl err
         | Inr (rec_value_s, rec_value_unit_s) \<Rightarrow>
             Inr (new_seq(rec_type rec_number \<mapsto> VStr ''Current'',
                          rec_value rec_number \<mapsto> VStr rec_value_s,
                          rec_value_unit rec_number \<mapsto> VStr rec_value_unit_s)))
      else Inl (Exception ''Unsupported ReportType'' [ReportType report]))"

fun proc_reports :: "nat \<Rightarrow> report_entry list \<Rightarrow> seq \<Rightarrow> error + seq" where
  "proc_reports rec_number [] new_seq = Inr new_seq"
| "proc_reports rec_number (r # rs) new_seq =
     (case proc_report rec_number r new_seq of
        Inl err \<Rightarrow> Inl err
      | Inr s \<Rightarrow> proc_reports (Suc rec_number) rs s)"

text \<open>The first part of \<^verbatim>\<open>_proc_step_to_seq\<close>: the control fields, by step type and mode.\<close>

definition proc_step_control :: "test_step \<Rightarrow> seq \<Rightarrow> error + seq" where
  "proc_step_control test_step new_seq =
     (let step_type = StepType test_step; step_mode = StepMode test_step;
          step_value = StepValue test_step;
          direction = VStr (if step_type = ''Charge'' then ''Charge'' else ''Discharge'')
      in if step_type = ''Rest'' then
           Inr (new_seq(seq_type \<mapsto> VStr ''Rest'', Apply_I_C \<mapsto> VStr ''I'',
                        N \<mapsto> VStr ''1.00'', charge_discharge \<mapsto> VStr ''Charge''))
         else if step_type \<noteq> ''Charge'' \<and> step_type \<noteq> ''Dischrge'' then
           Inl (Exception ''Unsupported Control StepType'' [step_type])
         else if step_mode = Some ''Current'' then
           (case step_value of
              None \<Rightarrow> Inl AssertionError
            | Some v \<Rightarrow>
                (case convert_amps v of
                   Inl err \<Rightarrow> Inl err
                 | Inr (ctrl1_val_s, ctrl1_val_unit_s) \<Rightarrow>
                     Inr (new_seq(ctrl1_val \<mapsto> VStr ctrl1_val_s,
                                  ctrl1_val_unit \<mapsto> VStr ctrl1_val_unit_s,
                                  seq_type \<mapsto> VStr ''CC'', Apply_I_C \<mapsto> VStr ''C / N'',
                                  ctrl1_val_vs \<mapsto> VStr ''<None>'', N \<mapsto> VStr ''15.00'',
                                  charge_discharge \<mapsto> direction))))
         else if step_mode = Some ''Voltage'' then
           (case step_value of
              None \<Rightarrow> Inl AssertionError
            | Some v \<Rightarrow>
                (case convert_amps v of
                   Inl err \<Rightarrow> Inl err
                 | Inr (ctrl1_val_s, ctrl1_val_unit_s) \<Rightarrow>
                     Inr (new_seq(ctrl1_val \<mapsto> VStr ctrl1_val_s,
                                  ctrl1_val_unit \<mapsto> VStr ctrl1_val_unit_s,
                                  seq_type \<mapsto> VStr ''CV'', Apply_I_C \<mapsto> VStr ''C / N'',
                                  ctrl1_val_vs \<mapsto> VStr ''Ref'', N \<mapsto> VStr ''15.00'',
                                  charge_discharge \<mapsto> direction))))
         else Inl (Exception ''Unsupported Charge/Discharge StepMode''
                     [case step_mode of None \<Rightarrow> ''None'' | Some m \<Rightarrow> m]))"

definition too_many :: "string \<Rightarrow> string \<Rightarrow> int \<Rightarrow> error" where
  "too_many what advice step_num =
     Exception (''Step '' @ str_int step_num @ '' has more than 3 '' @ what @
                '', the max allowed by Biologic. '' @ advice) []"

definition proc_step_to_seq ::
  "seq \<Rightarrow> test_step \<Rightarrow> int \<Rightarrow> (int \<rightharpoonup> int) \<Rightarrow> int \<Rightarrow> int \<Rightarrow> error + seq" where
  "proc_step_to_seq blank_seq test_step step_num seq_from_step_num goto_lower_bound end_step_num =
     (case seq_from_step_num step_num of
        None \<Rightarrow> Inl KeyError
      | Some seq_num \<Rightarrow>
          (case proc_step_control test_step
                  (blank_seq(Ns \<mapsto> VInt seq_num, lim_seq 1 \<mapsto> VInt (seq_num + 1),
                             lim_seq 2 \<mapsto> VInt (seq_num + 1), lim_seq 3 \<mapsto> VInt (seq_num + 1))) of
             Inl err \<Rightarrow> Inl err
           | Inr s1 \<Rightarrow>
               (let end_entries_list = entries_list (Ends test_step)
                in if length end_entries_list > 3
                   then Inl (too_many ''EndEntries''
                          (''Either remove some limits from the source loaded diagnostic file'' @
                           '' or filter by number using the'' @
                           '' remove_end_entries_with_target_gotos method'') step_num)
                   else
                     (case proc_end_entries step_num seq_from_step_num goto_lower_bound
                             end_step_num 1 end_entries_list
                             (s1(lim_nb \<mapsto> VInt (int (length end_entries_list)))) of
                        Inl err \<Rightarrow> Inl err
                      | Inr s2 \<Rightarrow>
                          (let report_entries_list = entries_list (Reports test_step)
                           in if length report_entries_list > 3
                              then Inl (too_many ''ReportyEntries''
                                     (''Either remove them from the source file'' @
                                      '' or pre-process the loaded maccor_ast'') step_num)
                              else proc_reports 1 report_entries_list
                                     (s2(rec_nb \<mapsto> VInt (int (length report_entries_list)))))))))"

section \<open>Synthesized loop records and unrolling\<close>

text \<open>The parameter \<open>seq_num_to_loop_to\<close> is not used by the body, as in the source.\<close>

definition create_loop_seq :: "seq \<Rightarrow> int \<Rightarrow> int \<Rightarrow> int \<Rightarrow> seq" where
  "create_loop_seq blank_seq seq_num seq_num_to_loop_to num_loops =
     blank_seq(Ns \<mapsto> VInt seq_num, seq_type \<mapsto> VStr ''Loop'', loop_repeat \<mapsto> VInt num_loops,
               ctrl_seq \<mapsto> VInt seq_num, lim_seq 1 \<mapsto> VInt (seq_num + 1),
               lim_seq 2 \<mapsto> VInt (seq_num + 1), lim_seq 3 \<mapsto> VInt (seq_num + 1),
               Apply_I_C \<mapsto> VStr ''C / N'', ctrl1_val \<mapsto> VStr ''100.000'')"

definition create_advance_cyle_seqs :: "seq \<Rightarrow> int \<Rightarrow> error + seq \<times> seq" where
  "create_advance_cyle_seqs blank_seq seq_num =
     (if seq_num = 0
      then Inl (Exception ''Biologic does not support advancing cycle number at step 1/seq 0'' [])
      else Inr (create_loop_seq blank_seq seq_num 0 0,
                create_loop_seq blank_seq (seq_num + 1) seq_num 1))"

text \<open>\<^verbatim>\<open>int(v)\<close> for a field of a record.\<close>

definition int_of_val :: "val \<Rightarrow> error + int" where
  "int_of_val v = (case v of VInt n \<Rightarrow> Inr n | VStr s \<Rightarrow> py_int s)"

text \<open>
  \<^verbatim>\<open>_unroll_loop\<close>.  \<open>unroll_goto\<close> is the body of \<^verbatim>\<open>for j in range(0, 3)\<close>, \<open>unroll_seq\<close>
  the body of \<^verbatim>\<open>for seq in loop\<close> up to the \<^verbatim>\<open>append\<close>, \<open>unroll_copy\<close> that inner loop
  and \<open>unroll_copies\<close> the outer loop over \<open>i\<close>; \<open>shift\<close> is \<^verbatim>\<open>len(loop) * i\<close>.
\<close>

definition unroll_goto :: "int \<Rightarrow> int \<Rightarrow> int \<Rightarrow> seq \<Rightarrow> nat \<Rightarrow> seq \<Rightarrow> error + seq" where
  "unroll_goto shift loop_start_seq_num loop_post_seq_num sq j unrolled_seq =
     (case sq (lim_seq (j + 1)) of
        None \<Rightarrow> Inl KeyError
      | Some v \<Rightarrow>
          (case int_of_val v of
             Inl err \<Rightarrow> Inl err
           | Inr goto_seq_num \<Rightarrow>
               if loop_start_seq_num \<le> goto_seq_num \<and> goto_seq_num \<le> loop_post_seq_num
               then Inr (unrolled_seq(lim_seq (j + 1) \<mapsto> VInt (goto_seq_num + shift)))
               else Inr unrolled_seq))"

fun unroll_gotos :: "int \<Rightarrow> int \<Rightarrow> int \<Rightarrow> seq \<Rightarrow> nat list \<Rightarrow> seq \<Rightarrow> error + seq" where
  "unroll_gotos shift lo hi sq [] unrolled_seq = Inr unrolled_seq"
| "unroll_gotos shift lo hi sq (j # js) unrolled_seq =
     (case unroll_goto shift lo hi sq j unrolled_seq of
        Inl err \<Rightarrow> Inl err
      | Inr u \<Rightarrow> unroll_gotos shift lo hi sq js u)"

definition unroll_seq :: "int \<Rightarrow> int \<Rightarrow> int \<Rightarrow> seq \<Rightarrow> error + seq" where
  "unroll_seq shift lo hi sq =
     (case sq Ns of
        None \<Rightarrow> Inl KeyError
      | Some (VStr s) \<Rightarrow> Inl TypeError
      | Some (VInt n) \<Rightarrow> unroll_gotos shift lo hi sq [0, 1, 2] (sq(Ns \<mapsto> VInt (n + shift))))"

fun unroll_copy :: "int \<Rightarrow> int \<Rightarrow> int \<Rightarrow> seq list \<Rightarrow> seq list \<Rightarrow> error + seq list" where
  "unroll_copy shift lo hi [] unrolled_loop = Inr unrolled_loop"
| "unroll_copy shift lo hi (sq # rest) unrolled_loop =
     (case unroll_seq shift lo hi sq of
        Inl err \<Rightarrow> Inl err
      | Inr u \<Rightarrow> unroll_copy shift lo hi rest (unrolled_loop @ [u]))"

fun unroll_copies :: "seq list \<Rightarrow> int \<Rightarrow> int \<Rightarrow> int list \<Rightarrow> seq list \<Rightarrow> error + seq list" where
  "unroll_copies loop lo hi [] unrolled_loop = Inr unrolled_loop"
| "unroll_copies loop lo hi (i # is) unrolled_loop =
     (case unroll_copy (int (length loop) * i) lo hi loop unrolled_loop of
        Inl err \<Rightarrow> Inl err
      | Inr u \<Rightarrow> unroll_copies loop lo hi is u)"

definition unroll_loop :: "seq list \<Rightarrow> int \<Rightarrow> int \<Rightarrow> int \<Rightarrow> error + seq list" where
  "unroll_loop loop num_loops loop_start_seq_num loop_post_seq_num =
     (case unroll_copies loop loop_start_seq_num loop_post_seq_num [1..num_loops] loop of
        Inl err \<Rightarrow> Inl err
      | Inr unrolled_loop \<Rightarrow>
          if int (length unrolled_loop) = int (length loop) * (num_loops + 1)
          then Inr unrolled_loop else Inl AssertionError)"

section \<open>Control-flow planner\<close>

text \<open>
  The state of the sizing pass.  The three stacks of the source grow at the end of a
  Python list; here the top of a stack is the head of the list, so \<^verbatim>\<open>s[-1]\<close> is the
  head, \<^verbatim>\<open>append\<close> is \<open>#\<close> and \<^verbatim>\<open>pop\<close> takes the head off; on an empty stack each of
  them raises \<^verbatim>\<open>IndexError\<close>.  The dictionaries \<^verbatim>\<open>{"will_unroll": b}\<close> and
  \<^verbatim>\<open>{"ignore": b}\<close> stored per index are the booleans they hold.
\<close>

record sizing_state =
  curr_seq_num :: int
  loop_seq_count_stack :: "int list"
  loop_will_unroll_stack :: "bool list"
  seq_num_by_step_num :: "int \<rightharpoonup> int"
  loop_unroll_status_by_idx :: "nat \<rightharpoonup> bool"
  adv_cycle_ignore_status_by_idx :: "nat \<rightharpoonup> bool"

text \<open>
  The repeat count of a \<^verbatim>\<open>Loop\<close> step: \<^verbatim>\<open>step["Ends"]["EndEntry"]\<close> must be one dictionary
  (a list or \<^verbatim>\<open>None\<close> cannot be subscripted with a string).
\<close>

definition loop_count :: "test_step \<Rightarrow> error + int" where
  "loop_count step =
     (case Ends step of
        OneEntry e \<Rightarrow> if EndType e = ''Loop Cnt'' then py_int (Value e) else Inl AssertionError
      | _ \<Rightarrow> Inl TypeError)"

text \<open>
  One iteration of the first loop; \<open>is_last_step_in_loop\<close> is computed by the caller
  from the next step.
\<close>

definition sizing_step :: "nat \<Rightarrow> test_step \<Rightarrow> bool \<Rightarrow> sizing_state \<Rightarrow> error + sizing_state" where
  "sizing_step idx step is_last_step_in_loop st0 =
     (let step_num = int idx + 1;
          st = st0\<lparr>seq_num_by_step_num := (seq_num_by_step_num st0)(step_num \<mapsto> curr_seq_num st0)\<rparr>;
          step_type = StepType step
      in case loop_will_unroll_stack st of
           [] \<Rightarrow> Inl IndexError
         | curr_loop_will_unroll # unroll_rest \<Rightarrow>
             if take 2 step_type = ''Do'' then
               Inr (st\<lparr>loop_will_unroll_stack := False # True # unroll_rest,
                        loop_seq_count_stack := 0 # loop_seq_count_stack st\<rparr>)
             else if step_type = ''AdvCycle'' \<and> is_last_step_in_loop \<and> \<not> curr_loop_will_unroll then
               Inr (st\<lparr>adv_cycle_ignore_status_by_idx :=
                          (adv_cycle_ignore_status_by_idx st)(idx \<mapsto> True)\<rparr>)
             else if step_type = ''AdvCycle'' then
               (case loop_seq_count_stack st of
                  [] \<Rightarrow> Inl IndexError
                | c # cs \<Rightarrow>
                    Inr (st\<lparr>loop_will_unroll_stack := True # unroll_rest,
                             adv_cycle_ignore_status_by_idx :=
                               (adv_cycle_ignore_status_by_idx st)(idx \<mapsto> False),
                             loop_seq_count_stack := (c + 2) # cs,
                             curr_seq_num := curr_seq_num st + 2\<rparr>))
             else if take 4 step_type = ''Loop'' then
               (case loop_count step of
                  Inl err \<Rightarrow> Inl err
                | Inr num_loops \<Rightarrow>
                    (case loop_seq_count_stack st of
                       [] \<Rightarrow> Inl IndexError
                     | curr_loop_seq_count # cs \<Rightarrow>
                         (case cs of
                            [] \<Rightarrow> Inl IndexError
                          | parent # ps \<Rightarrow>
                              if curr_loop_will_unroll then
                                Inr (st\<lparr>loop_will_unroll_stack := unroll_rest,
                                         loop_unroll_status_by_idx :=
                                           (loop_unroll_status_by_idx st)(idx \<mapsto> curr_loop_will_unroll),
                                         curr_seq_num :=
                                           curr_seq_num st + curr_loop_seq_count * num_loops,
                                         loop_seq_count_stack :=
                                           (parent + curr_loop_seq_count * (num_loops + 1)) # ps\<rparr>)
                              else
                                Inr (st\<lparr>loop_will_unroll_stack := unroll_rest,
                                         loop_unroll_status_by_idx :=
                                           (loop_unroll_status_by_idx st)(idx \<mapsto> curr_loop_will_unroll),
                                         curr_seq_num := curr_seq_num st + 1,
                                         loop_seq_count_stack :=
                                           (parent + (curr_loop_seq_count + 1)) # ps\<rparr>))))
             else if is_last_step_in_loop then
               (case loop_seq_count_stack st of
                  [] \<Rightarrow> Inl IndexError
                | c # cs \<Rightarrow>
                    Inr (st\<lparr>loop_will_unroll_stack := True # unroll_rest,
                             loop_seq_count_stack := (c + 1) # cs,
                             curr_seq_num := curr_seq_num st + 1\<rparr>))
             else
               (case loop_seq_count_stack st of
                  [] \<Rightarrow> Inl IndexError
                | c # cs \<Rightarrow>
                    Inr (st\<lparr>loop_seq_count_stack := (c + 1) # cs,
                             curr_seq_num := curr_seq_num st + 1\<rparr>)))"

text \<open>
  \<^verbatim>\<open>for idx, step in enumerate(steps[0:-1])\<close>: the recursion runs over the whole list and
  stops at its last element, so that the step after the current one,
  \<^verbatim>\<open>steps[idx + 1]\<close>, is the head of the rest.
\<close>

fun sizing_loop :: "nat \<Rightarrow> test_step list \<Rightarrow> sizing_state \<Rightarrow> error + sizing_state" where
  "sizing_loop idx (step # next_step # rest) st =
     (case sizing_step idx step (take 4 (StepType next_step) = ''Loop'') st of
        Inl err \<Rightarrow> Inl err
      | Inr st' \<Rightarrow> sizing_loop (Suc idx) (next_step # rest) st')"
| "sizing_loop idx steps st = Inr st"

definition sizing_init :: "test_step list \<Rightarrow> sizing_state" where
  "sizing_init steps =
     \<lparr>curr_seq_num = 0, loop_seq_count_stack = [0], loop_will_unroll_stack = [False],
      seq_num_by_step_num = [int (length steps) \<mapsto> END_SEQ_NUM],
      loop_unroll_status_by_idx = Map.empty,
      adv_cycle_ignore_status_by_idx = Map.empty\<rparr>"

text \<open>The state of the generation pass; the stacks as above.\<close>

record generation_state =
  seq_loop_stack :: "seq list list"
  loop_start_seq_num_stack :: "int list"
  step_num_goto_lower_bound :: int

definition generation_step ::
  "seq \<Rightarrow> sizing_state \<Rightarrow> int \<Rightarrow> nat \<Rightarrow> test_step \<Rightarrow> generation_state \<Rightarrow> error + generation_state" where
  "generation_step blank_seq sizing end_step_num idx step st =
     (let step_type = StepType step; step_num = int idx + 1
      in case seq_num_by_step_num sizing step_num of
           None \<Rightarrow> Inl KeyError
         | Some seq_num \<Rightarrow>
             if take 2 step_type = ''Do'' then
               Inr (st\<lparr>step_num_goto_lower_bound := step_num,
                        seq_loop_stack := [] # seq_loop_stack st,
                        loop_start_seq_num_stack := seq_num # loop_start_seq_num_stack st\<rparr>)
             else if take 4 step_type = ''Loop'' \<and> step_num \<noteq> 0 then
               (case loop_start_seq_num_stack st of
                  [] \<Rightarrow> Inl IndexError
                | loop_start_seq_num # starts \<Rightarrow>
                    (case loop_count step of
                       Inl err \<Rightarrow> Inl err
                     | Inr num_loops \<Rightarrow>
                         (case loop_unroll_status_by_idx sizing idx of
                            None \<Rightarrow> Inl KeyError
                          | Some loop_will_unoll \<Rightarrow>
                              (case seq_loop_stack st of
                                 [] \<Rightarrow> Inl IndexError
                               | loop # stack \<Rightarrow>
                                   (case (if loop_will_unoll
                                          then (case unroll_loop loop num_loops loop_start_seq_num seq_num of
                                                  Inl err \<Rightarrow> Inl err
                                                | Inr unrolled_loop \<Rightarrow>
                                                    if int (length unrolled_loop) =
                                                       int (length loop) * (num_loops + 1)
                                                    then Inr unrolled_loop else Inl AssertionError)
                                          else Inr (loop @ [create_loop_seq blank_seq seq_num
                                                              loop_start_seq_num num_loops])) of
                                      Inl err \<Rightarrow> Inl err
                                    | Inr loop' \<Rightarrow>
                                        (case stack of
                                           [] \<Rightarrow> Inl IndexError
                                         | enclosing # below \<Rightarrow>
                                             Inr (st\<lparr>step_num_goto_lower_bound := step_num,
                                                      loop_start_seq_num_stack := starts,
                                                      seq_loop_stack := (enclosing @ loop') # below\<rparr>)))))))
             else if step_type = ''AdvCycle'' then
               (case adv_cycle_ignore_status_by_idx sizing idx of
                  None \<Rightarrow> Inl KeyError
                | Some ignore \<Rightarrow>
                    if ignore then Inr st
                    else
                      (case create_advance_cyle_seqs blank_seq seq_num of
                         Inl err \<Rightarrow> Inl err
                       | Inr (blank_loop_seq, adv_cycle_loop_seq) \<Rightarrow>
                           (case seq_loop_stack st of
                              [] \<Rightarrow> Inl IndexError
                            | enclosing # below \<Rightarrow>
                                Inr (st\<lparr>step_num_goto_lower_bound := step_num,
                                         seq_loop_stack :=
                                           (enclosing @ [blank_loop_seq, adv_cycle_loop_seq]) # below\<rparr>))))
             else
               (case proc_step_to_seq blank_seq step step_num (seq_num_by_step_num sizing)
                       (step_num_goto_lower_bound st) end_step_num of
                  Inl err \<Rightarrow> Inl err
                | Inr sq \<Rightarrow>
                    (case seq_loop_stack st of
                       [] \<Rightarrow> Inl IndexError
                     | enclosing # below \<Rightarrow> Inr (st\<lparr>seq_loop_stack := (enclosing @ [sq]) # below\<rparr>))))"

fun generation_loop ::
  "seq \<Rightarrow> sizing_state \<Rightarrow> int \<Rightarrow> nat \<Rightarrow> test_step list \<Rightarrow> generation_state \<Rightarrow> error + generation_state" where
  "generation_loop blank_seq sizing end_step_num idx (step # next_step # rest) st =
     (case generation_step blank_seq sizing end_step_num idx step st of
        Inl err \<Rightarrow> Inl err
      | Inr st' \<Rightarrow> generation_loop blank_seq sizing end_step_num (Suc idx) (next_step # rest) st')"
| "generation_loop blank_seq sizing end_step_num idx steps st = Inr st"

definition generation_init :: generation_state where
  "generation_init =
     \<lparr>seq_loop_stack = [[]], loop_start_seq_num_stack = [], step_num_goto_lower_bound = 0\<rparr>"

text \<open>
  \<^verbatim>\<open>_create_biologic_seqs_from_maccor_ast\<close>, from the list of steps on.  \<^verbatim>\<open>steps[-1]\<close> of an
  empty list raises \<^verbatim>\<open>IndexError\<close>.
\<close>

definition create_biologic_seqs_from_maccor_ast :: "seq \<Rightarrow> test_step list \<Rightarrow> error + seq list" where
  "create_biologic_seqs_from_maccor_ast blank_seq steps =
     (if steps = [] then Inl IndexError
      else if StepType (last steps) \<noteq> ''End'' then Inl AssertionError
      else
        (case sizing_loop 0 steps (sizing_init steps) of
           Inl err \<Rightarrow> Inl err
         | Inr sizing \<Rightarrow>
             if length (loop_seq_count_stack sizing) \<noteq> 1 then Inl AssertionError
             else if length (loop_will_unroll_stack sizing) \<noteq> 1 then Inl AssertionError
             else
               (let pre_computed_seq_count = hd (loop_seq_count_stack sizing)
                in if pre_computed_seq_count \<noteq> curr_seq_num sizing then Inl AssertionError
                   else
                     (case generation_loop blank_seq sizing (int (length steps)) 0 steps
                             generation_init of
                        Inl err \<Rightarrow> Inl err
                      | Inr st \<Rightarrow>
                          if length (seq_loop_stack st) \<noteq> 1 then Inl AssertionError
                          else
                            (let seqs = hd (seq_loop_stack st)
                             in if int (length seqs) \<noteq> pre_computed_seq_count
                                then Inl AssertionError else Inr seqs)))))"

section \<open>Notions used in the statements\<close>

text \<open>
  A record whose index and three goto fields hold integers (every record the generation
  pass builds is one), the integer a field holds, and the copy that \<open>unroll_seq\<close> makes
  of such a record, written out field by field.
\<close>

definition has_int :: "seq \<Rightarrow> key \<Rightarrow> bool" where
  "has_int sq k = (case sq k of Some (VInt n) \<Rightarrow> True | _ \<Rightarrow> False)"

definition int_field :: "seq \<Rightarrow> key \<Rightarrow> int" where
  "int_field sq k = (case sq k of Some (VInt n) \<Rightarrow> n | _ \<Rightarrow> 0)"

definition shift_goto :: "int \<Rightarrow> int \<Rightarrow> int \<Rightarrow> int \<Rightarrow> int" where
  "shift_goto shift lo hi g = (if lo \<le> g \<and> g \<le> hi then g + shift else g)"

definition shifted_copy :: "int \<Rightarrow> int \<Rightarrow> int \<Rightarrow> seq \<Rightarrow> seq" where
  "shifted_copy shift lo hi sq =
     sq(Ns \<mapsto> VInt (int_field sq Ns + shift),
        lim_seq 1 \<mapsto> VInt (shift_goto shift lo hi (int_field sq (lim_seq 1))),
        lim_seq 2 \<mapsto> VInt (shift_goto shift lo hi (int_field sq (lim_seq 2))),
        lim_seq 3 \<mapsto> VInt (shift_goto shift lo hi (int_field sq (lim_seq 3))))"

definition int_fields :: "seq \<Rightarrow> bool" where
  "int_fields sq = (has_int sq Ns \<and> has_int sq (lim_seq 1) \<and> has_int sq (lim_seq 2) \<and> has_int sq (lim_seq 3))"

definition adv_cycle_pair :: "seq list" where
  "adv_cycle_pair = [create_loop_seq Map.empty 1 0 0, create_loop_seq Map.empty 2 1 1]"

text \<open>
  A decimal magnitude string: white space, an optional sign, the digits of the integer
  part, an optional point with the digits of the fraction, an optional exponent (the
  letter, an optional sign and at least one digit; \<^verbatim>\<open>int()\<close> converts at most
  \<open>max_str_digits\<close> of them), white space.  There is a digit before or after the point.
  These are the finite decimal literals that \<^verbatim>\<open>float()\<close> reads, written without the
  underscores that Python allows between two digits.  \<open>literal\<close> is the string itself.
\<close>

record decimal =
  leading :: string
  sign_part :: string
  int_part :: string
  frac_part :: "string option"
  exp_part :: "(char \<times> string \<times> string) option"
  trailing :: string

definition fraction :: "decimal \<Rightarrow> string" where
  "fraction d = (case frac_part d of None \<Rightarrow> [] | Some fp \<Rightarrow> fp)"

definition literal :: "decimal \<Rightarrow> string" where
  "literal d =
     leading d @ sign_part d @ int_part d @
     (case frac_part d of None \<Rightarrow> [] | Some fp \<Rightarrow> CHR ''.'' # fp) @
     (case exp_part d of None \<Rightarrow> [] | Some (ec, sg, ds) \<Rightarrow> ec # sg @ ds) @
     trailing d"

definition is_sign :: "string \<Rightarrow> bool" where
  "is_sign sg = (sg \<in> set [[], ''-'', ''+''])"

definition is_decimal :: "decimal \<Rightarrow> bool" where
  "is_decimal d =
     (list_all is_space (leading d) \<and> list_all is_space (trailing d) \<and>
      is_sign (sign_part d) \<and> list_all is_digit (int_part d) \<and>
      list_all is_digit (fraction d) \<and> int_part d @ fraction d \<noteq> [] \<and>
      (case exp_part d of
         None \<Rightarrow> True
       | Some (ec, sg, ds) \<Rightarrow>
           (ec = CHR ''e'' \<or> ec = CHR ''E'') \<and> is_sign sg \<and> ds \<noteq> [] \<and>
           list_all is_digit ds \<and> length ds \<le> max_str_digits))"

text \<open>
  The precision of a decimal in the words of the specification, with the trailing zeros
  of the fraction left out of the count: the number of digits of the fraction up to
  its last non-zero one, minus the exponent's power of ten.
\<close>

definition trailing_zeros :: "string \<Rightarrow> nat" where
  "trailing_zeros ds = length (takeWhile (\<lambda>c. c = CHR ''0'') (rev ds))"

definition exponent :: "decimal \<Rightarrow> int" where
  "exponent d =
     (case exp_part d of
        None \<Rightarrow> 0
      | Some (ec, sg, ds) \<Rightarrow> if sg = ''-'' then - int (dec_val ds) else int (dec_val ds))"

definition precision :: "decimal \<Rightarrow> int" where
  "precision d = int (length (fraction d) - trailing_zeros (fraction d)) - exponent d"

text \<open>
  The rescale rule in the words of the specification.  A ladder of units runs from the
  largest unit to the smallest, each with the power of ten it stands for.  Starting at
  the largest unit, the magnitude moves to the next smaller unit when its value is below
  1 in the current unit (below the float \<open>10\<^sup>k\<close>) or its precision exceeds 3 digits at the
  current scale (\<open>3 < p + k\<close>); at the unit where it stays, and at the smallest one, the
  value is multiplied into that unit and formatted to three decimals.
\<close>

definition float_pow10 :: "int \<Rightarrow> pyfloat" where
  "float_pow10 k = rnd (pow10 k)"

definition in_unit :: "int \<Rightarrow> pyfloat \<Rightarrow> string" where
  "in_unit k num = format_3f (if k = 0 then num else fmul num (float_pow10 (- k)))"

fun rescale :: "(int \<times> string) list \<Rightarrow> pyfloat \<Rightarrow> int \<Rightarrow> string \<times> string" where
  "rescale [] num p = (format_3f num, [])"
| "rescale [(k, u)] num p = (in_unit k num, u)"
| "rescale ((k, u) # smaller) num p =
     (if flt num (float_pow10 k) \<or> 3 < p + k then rescale smaller num p else (in_unit k num, u))"

definition volt_units :: "(int \<times> string) list" where
  "volt_units = [(0, ''V''), (- 3, ''mV'')]"

definition amp_units :: "(int \<times> string) list" where
  "amp_units =
     [(0, ''A''), (- 3, ''mA''), (- 6, [micro_sign, CHR ''A'']), (- 9, ''nA''), (- 12, ''pA'')]"

definition watt_units :: "(int \<times> string) list" where
  "watt_units = [(0, ''W''), (- 3, ''mW''), (- 6, [micro_sign, CHR ''W''])]"

definition ohm_units :: "(int \<times> string) list" where
  "ohm_units =
     [(6, ''MOhms''), (3, ''kOhms''), (0, ''Ohms''), (- 3, ''mOhms''), (- 6, micro_sign # ''Ohms'')]"

text \<open>
  The invariants of the two passes: level by level, the sizes that the sizing pass has
  counted are the lengths of the lists that the generation pass has built; and in the
  sizing pass the running total is the sum of the counts and the two stacks have the same
  height.
\<close>

definition counts_agree :: "sizing_state \<Rightarrow> generation_state \<Rightarrow> bool" where
  "counts_agree s g = (map (\<lambda>l. int (length l)) (seq_loop_stack g) = loop_seq_count_stack s)"

definition sizing_inv :: "sizing_state \<Rightarrow> bool" where
  "sizing_inv s =
     (curr_seq_num s = sum_list (loop_seq_count_stack s) \<and>
      length (loop_will_unroll_stack s) = length (loop_seq_count_stack s))"

section \<open>Example procedures\<close>

text \<open>
  A record template for the examples (the schema file is not among the sources; the
  theorems stated for every template do not depend on it), and small procedures: a rest
  step that ends after half a second and continues at step \<open>goto\<close>, the control-flow
  steps, and a loop terminator with its count.
\<close>

definition example_blank_seq :: seq where
  "example_blank_seq =
     [Ns \<mapsto> VInt 0, seq_type \<mapsto> VStr ''Rest'', lim_nb \<mapsto> VInt 0,
      lim_seq 1 \<mapsto> VInt 0, lim_seq 2 \<mapsto> VInt 0, lim_seq 3 \<mapsto> VInt 0,
      lim_action 1 \<mapsto> VStr ''Next sequence'', lim_action 2 \<mapsto> VStr ''Next sequence'',
      lim_action 3 \<mapsto> VStr ''Next sequence'', rec_nb \<mapsto> VInt 0,
      loop_repeat \<mapsto> VInt 0, ctrl_seq \<mapsto> VInt 0]"

definition rest_step :: "string \<Rightarrow> test_step" where
  "rest_step goto =
     \<lparr>StepType = ''Rest'', StepMode = None, StepValue = None,
      Ends = OneEntry \<lparr>EndType = ''StepTime'', Oper = ''='', Step = goto, Value = ''::.5''\<rparr>,
      Reports = NoEntry\<rparr>"

definition control_step :: "string \<Rightarrow> test_step" where
  "control_step step_type =
     \<lparr>StepType = step_type, StepMode = None, StepValue = None, Ends = NoEntry,
      Reports = NoEntry\<rparr>"

definition loop_step :: "string \<Rightarrow> string \<Rightarrow> test_step" where
  "loop_step goto count =
     \<lparr>StepType = ''Loop 1'', StepMode = None, StepValue = None,
      Ends = OneEntry \<lparr>EndType = ''Loop Cnt'', Oper = ''='', Step = goto, Value = count\<rparr>,
      Reports = NoEntry\<rparr>"

definition adv_cycle_at_step_2 :: "test_step list" where
  "adv_cycle_at_step_2 = [rest_step ''002'', control_step ''AdvCycle'', control_step ''End'']"

definition native_loop :: "test_step list" where
  "native_loop =
     [control_step ''Do 1'', rest_step ''003'', control_step ''AdvCycle'', loop_step ''002'' ''2'',
      control_step ''End'']"

definition unrolled_loop_steps :: "test_step list" where
  "unrolled_loop_steps =
     [rest_step ''002'', control_step ''Do 1'', rest_step ''004'', rest_step ''005'',
      loop_step ''003'' ''2'', control_step ''End'']"

definition unrolled_adv_cycle_steps :: "test_step list" where
  "unrolled_adv_cycle_steps =
     [rest_step ''002'', control_step ''Do 1'', control_step ''AdvCycle'', rest_step ''005'',
      loop_step ''003'' ''1'', control_step ''End'']"

definition goto_end_steps :: "test_step list" where
  "goto_end_steps = [rest_step ''002'', control_step ''End'']"

definition goto_over_do_steps :: "test_step list" where
  "goto_over_do_steps =
     [rest_step ''003'', control_step ''Do 1'', rest_step ''004'', control_step ''AdvCycle'',
      loop_step ''003'' ''2'', control_step ''End'']"

definition voltage_limit_steps :: "test_step list" where
  "voltage_limit_steps =
     [\<lparr>StepType = ''Rest'', StepMode = None, StepValue = None,
       Ends = OneEntry \<lparr>EndType = ''Voltage'', Oper = ''>'', Step = ''002'', Value = ''4.2''\<rparr>,
       Reports = NoEntry\<rparr>,
      control_step ''End'']"

section \<open>Evaluation on concrete inputs\<close>

text \<open>
  Rewrite rules that let the simplifier run the recursive functions and the rounding
  on numerals.
\<close>

lemma bitlen_nat_0 [simp]: "bitlen_nat 0 = 0"
  by (simp add: bitlen_nat.simps)

lemma bitlen_nat_Suc0 [simp]: "bitlen_nat (Suc 0) = Suc 0"
  by (simp add: bitlen_nat.simps)

lemma bitlen_nat_one [simp]: "bitlen_nat 1 = 1"
  by (simp add: bitlen_nat.simps)

lemma bitlen_nat_Bit0 [simp]: "bitlen_nat (numeral (Num.Bit0 k)) = Suc (bitlen_nat (numeral k))"
  by (subst bitlen_nat.simps) simp

lemma bitlen_nat_Bit1 [simp]: "bitlen_nat (numeral (Num.Bit1 k)) = Suc (bitlen_nat (numeral k))"
  by (subst bitlen_nat.simps) simp

lemma floor_rat_numeral_div [simp]:
  "\<lfloor>numeral a / numeral b :: rat\<rfloor> = numeral a div numeral b"
  by (metis floor_divide_of_int_eq of_int_numeral)

lemma floor_rat_one_div [simp]: "\<lfloor>1 / numeral b :: rat\<rfloor> = 1 div numeral b"
  by (metis floor_divide_of_int_eq of_int_numeral of_int_1)

lemma ceiling_rat_numeral_div [simp]:
  "\<lceil>numeral a / numeral b :: rat\<rceil> = - (- numeral a div numeral b)"
  unfolding ceiling_def
  by (metis floor_divide_of_int_eq of_int_numeral of_int_minus minus_divide_left)

lemma ceiling_rat_one_div [simp]: "\<lceil>1 / numeral b :: rat\<rceil> = - (- 1 div numeral b)"
  unfolding ceiling_def
  by (metis floor_divide_of_int_eq of_int_numeral of_int_minus minus_divide_left of_int_1)

lemma str_nat_small [simp]: "n < 10 \<Longrightarrow> str_nat n = [digit_char n]"
  by (simp add: str_nat.simps)

lemma str_nat_large [simp]: "10 \<le> n \<Longrightarrow> str_nat n = str_nat (n div 10) @ [digit_char n]"
  by (subst str_nat.simps) simp

lemmas parse_simps = py_float_def py_strip_def is_space_def read_sign_def lower_char_def
  parse_decimal_def digitpart_def is_digit_def parse_exponent_def dec_val_def digit_val_def
  pow10_def signed_zero_def

lemma rnd_half: "rnd (1 / 2) = Fin (1 / 2)"
  unfolding rnd_def Let_def
  apply (simp add: ilog2_def)
  apply (simp add: pow2_def)
  apply (simp add: round_half_even_def)
  done

lemma rnd_500: "rnd 500 = Fin 500"
  unfolding rnd_def Let_def
  apply (simp add: ilog2_def)
  apply (simp add: pow2_def)
  apply (simp add: round_half_even_def)
  done

lemma rnd_3600: "rnd 3600 = Fin 3600"
  unfolding rnd_def Let_def
  apply (simp add: ilog2_def)
  apply (simp add: pow2_def)
  apply (simp add: round_half_even_def)
  done

lemma py_float_dot5: "py_float ''.5'' = Inr (Fin (1 / 2))"
  by (simp add: parse_simps rnd_half)

lemma py_float_3600: "py_float ''3600'' = Inr (Fin 3600)"
  by (simp add: parse_simps rnd_3600)

lemma format_500: "format_3f_int 500 = Inr ''500.000''"
  by (simp add: format_3f_int_def float_of_int_def finite_or_overflow_def rnd_500 format_3f_def
      fixed3_def round_half_even_def digit_char_def)

lemma format_3600: "format_3f_int 3600 = Inr ''3600.000''"
  by (simp add: format_3f_int_def float_of_int_def finite_or_overflow_def rnd_3600 format_3f_def
      fixed3_def round_half_even_def digit_char_def)

lemma convert_time_half_second: "convert_time ''::.5'' = Inr (''500.000'', ''ms'')"
  by (simp add: convert_time_def part_float_def py_float_dot5 convert_time_parts_def feq_def
      fmod1_def trunc_zero_def fmul_def fadd_def signed_zero_def rnd_500 int_of_float_def format_500)

lemma convert_time_3600_hours: "convert_time ''3600::'' = Inr (''3600.000'', ''hr'')"
  by (simp add: convert_time_def part_float_def py_float_3600 convert_time_parts_def feq_def
      int_of_float_def trunc_zero_def format_3600)

lemma rnd_12n: "rnd (3 / 250000000) = Fin (7253554917687775 / 604462909807314587353088)"
  unfolding rnd_def Let_def
  apply (simp add: ilog2_def)
  apply (simp add: pow2_def)
  apply (simp add: round_half_even_def)
  done

lemma rnd_1e_9: "rnd (1 / 1000000000) = Fin (4835703278458517 / 4835703278458516698824704)"
  unfolding rnd_def Let_def
  apply (simp add: ilog2_def)
  apply (simp add: pow2_def)
  apply (simp add: round_half_even_def)
  done

lemma rnd_1e_6: "rnd (1 / 1000000) = Fin (4722366482869645 / 4722366482869645213696)"
  unfolding rnd_def Let_def
  apply (simp add: ilog2_def)
  apply (simp add: pow2_def)
  apply (simp add: round_half_even_def)
  done

lemma fmul_12n_1e9:
  "fmul (Fin (7253554917687775 / 604462909807314587353088)) (Fin 1000000000) = Fin 12"
  unfolding fmul_def rnd_def Let_def
  apply (simp add: ilog2_def)
  apply (simp add: pow2_def)
  apply (simp add: round_half_even_def)
  done

lemma py_float_12n:
  "py_float ''0.000000012'' = Inr (Fin (7253554917687775 / 604462909807314587353088))"
  by (simp add: parse_simps rnd_12n)

lemma sig_figs_12n: "get_decimal_sig_figs ''0.000000012'' = Inr 9"
  by (simp add: get_decimal_sig_figs_def is_digit_def strip_trailing_zeros_def)

lemma format_12: "format_3f (Fin 12) = ''12.000''"
  by (simp add: format_3f_def fixed3_def round_half_even_def digit_char_def)

lemma convert_amps_12n: "convert_amps ''0.000000012'' = Inr (''12.000'', ''nA'')"
  by (simp add: convert_amps_def sig_figs_12n py_float_12n rnd_1e_9 rnd_1e_6 flt_def
      fmul_12n_1e9 format_12)

section \<open>The converters on the documented examples\<close>

text \<open>
  C8 (as stated, refuted): the current converter does not map \<^verbatim>\<open>"0.000000012"\<close> to
  \<^verbatim>\<open>("12.000", "pA")\<close>.
\<close>

theorem convert_amps_example_not_pA:
  "convert_amps ''0.000000012'' \<noteq> Inr (''12.000'', ''pA'')"
  by (simp add: convert_amps_12n)

text \<open>
  C8 (amended): the current converter maps the input string \<^verbatim>\<open>"0.000000012"\<close>, which is
  12 nA, to the value/unit pair \<^verbatim>\<open>("12.000", "nA")\<close>: the value is not below \<^verbatim>\<open>1e-9\<close> and
  carries nine decimal digits, so the pA branch is not taken.
\<close>

theorem convert_amps_example_nA:
  "convert_amps ''0.000000012'' = Inr (''12.000'', ''nA'')"
  by (rule convert_amps_12n)

text \<open>
  C9: the duration converter maps \<^verbatim>\<open>"::.5"\<close> to \<^verbatim>\<open>("500.000", "ms")\<close> and \<^verbatim>\<open>"3600::"\<close> to
  the hours unit with the value formatted to three decimals, \<^verbatim>\<open>("3600.000", "hr")\<close>.
\<close>

theorem convert_time_examples:
  "convert_time ''::.5'' = Inr (''500.000'', ''ms'') \<and>
   convert_time ''3600::'' = Inr (''3600.000'', ''hr'')"
  by (simp add: convert_time_half_second convert_time_3600_hours)

section \<open>Loop unrolling\<close>

lemma has_intD: "has_int sq k \<Longrightarrow> sq k = Some (VInt (int_field sq k))"
  by (auto simp: has_int_def int_field_def split: option.splits val.splits)

lemma unroll_goto_int:
  "sq (lim_seq (Suc j)) = Some (VInt g) \<Longrightarrow>
   unroll_goto shift lo hi sq j u =
     Inr (if lo \<le> g \<and> g \<le> hi then u(lim_seq (Suc j) \<mapsto> VInt (g + shift)) else u)"
  by (simp add: unroll_goto_def int_of_val_def)

lemma unroll_seq_int_fields:
  assumes "int_fields sq"
  shows "unroll_seq shift lo hi sq = Inr (shifted_copy shift lo hi sq)"
proof -
  have ns: "sq Ns = Some (VInt (int_field sq Ns))"
    and g1: "sq (lim_seq (Suc 0)) = Some (VInt (int_field sq (lim_seq (Suc 0))))"
    and g2: "sq (lim_seq (Suc (Suc 0))) = Some (VInt (int_field sq (lim_seq (Suc (Suc 0)))))"
    and g3: "sq (lim_seq (Suc (Suc (Suc 0)))) =
             Some (VInt (int_field sq (lim_seq (Suc (Suc (Suc 0))))))"
    using assms by (auto simp: int_fields_def numeral_2_eq_2 numeral_3_eq_3 dest: has_intD)
  have "unroll_seq shift lo hi sq =
        unroll_gotos shift lo hi sq [0, Suc 0, Suc (Suc 0)] (sq(Ns \<mapsto> VInt (int_field sq Ns + shift)))"
    by (simp add: unroll_seq_def ns numeral_2_eq_2)
  also have "\<dots> = Inr (shifted_copy shift lo hi sq)"
    unfolding unroll_gotos.simps unroll_goto_int [of sq 0, OF g1]
      unroll_goto_int [of sq "Suc 0", OF g2] unroll_goto_int [of sq "Suc (Suc 0)", OF g3] sum.case shifted_copy_def shift_goto_def
    using g1 g2 g3
    by (auto simp: numeral_2_eq_2 numeral_3_eq_3 fun_upd_def intro!: ext)
  finally show ?thesis .
qed

lemma unroll_copy_int_fields:
  "\<forall>sq\<in>set xs. int_fields sq \<Longrightarrow>
   unroll_copy shift lo hi xs acc = Inr (acc @ map (shifted_copy shift lo hi) xs)"
  by (induction xs arbitrary: acc) (simp_all add: unroll_seq_int_fields)

lemma unroll_copies_int_fields:
  "\<forall>sq\<in>set loop. int_fields sq \<Longrightarrow>
   unroll_copies loop lo hi is acc =
     Inr (acc @ concat (map (\<lambda>i. map (shifted_copy (int (length loop) * i) lo hi) loop) is))"
  by (induction "is" arbitrary: acc) (simp_all add: unroll_copy_int_fields)

lemma length_concat_blocks:
  "(\<And>x. length (f x) = L) \<Longrightarrow> length (concat (map f xs)) = length xs * L"
  by (induction xs) simp_all

lemma nth_concat_blocks:
  "(\<And>x. length (f x) = L) \<Longrightarrow> m < length xs \<Longrightarrow> k < L \<Longrightarrow>
   concat (map f xs) ! (m * L + k) = f (xs ! m) ! k"
proof (induction xs arbitrary: m)
  case Nil
  then show ?case by simp
next
  case (Cons x xs)
  show ?case
  proof (cases m)
    case 0
    with Cons.prems show ?thesis by (simp add: nth_append)
  next
    case (Suc m')
    with Cons.prems have "m' < length xs" by simp
    from Cons.IH [OF Cons.prems(1) this Cons.prems(3)] Suc Cons.prems(1) [of x]
    show ?thesis by (simp add: nth_append)
  qed
qed

lemma unroll_loop_zero: "unroll_loop loop 0 lo hi = Inr loop"
  by (simp add: unroll_loop_def)

lemma unroll_loop_int_fields:
  assumes "\<forall>sq\<in>set loop. int_fields sq" and "0 \<le> num_loops"
  shows "unroll_loop loop num_loops lo hi =
           Inr (loop @ concat (map (\<lambda>i. map (shifted_copy (int (length loop) * i) lo hi) loop)
                                [1..num_loops]))"
proof -
  let ?f = "\<lambda>i. map (shifted_copy (int (length loop) * i) lo hi) loop"
  have len: "length (concat (map ?f [1..num_loops])) = length [1..num_loops] * length loop"
    by (rule length_concat_blocks) simp
  have "int (length (concat (map ?f [1..num_loops]))) = num_loops * int (length loop)"
    using assms(2) by (simp add: len)
  then have "int (length (loop @ concat (map ?f [1..num_loops]))) = int (length loop) * (num_loops + 1)"
    by (simp add: algebra_simps)
  then show ?thesis
    unfolding unroll_loop_def unroll_copies_int_fields [OF assms(1)] by simp
qed

lemma nth_unrolled_copy:
  assumes "1 \<le> i" and "i \<le> num_loops" and "k < length loop"
  shows "(loop @ concat (map (\<lambda>i. map (shifted_copy (int (length loop) * i) lo hi) loop)
                          [1..num_loops])) ! (nat i * length loop + k) =
         shifted_copy (int (length loop) * i) lo hi (loop ! k)"
proof -
  let ?f = "\<lambda>i. map (shifted_copy (int (length loop) * i) lo hi) loop"
  let ?m = "nat (i - 1)"
  have m: "?m < length [1..num_loops]" using assms by simp
  have idx: "nat i * length loop + k = length loop + (?m * length loop + k)"
  proof -
    have "nat i = Suc ?m" using assms(1) by simp
    then show ?thesis by simp
  qed
  have "[1..num_loops] ! ?m = i"
    using assms by (simp add: nth_upto)
  moreover have "concat (map ?f [1..num_loops]) ! (?m * length loop + k) = ?f ([1..num_loops] ! ?m) ! k"
    by (rule nth_concat_blocks) (use m assms(3) in simp_all)
  ultimately show ?thesis
    using assms(3) by (simp add: idx nth_append del: upto.simps)
qed

text \<open>
  What holds of C3: for a loop body of length \<open>L\<close> whose records hold integers in \<open>Ns\<close>
  and in the three goto fields, and a repeat count \<open>N \<ge> 0\<close>, unrolling succeeds and
  yields exactly \<open>L * (N + 1)\<close> records; the first \<open>L\<close> are the body itself, and in the
  \<open>i\<close>-th duplicate (\<open>1 \<le> i \<le> N\<close>) the index \<open>Ns\<close> is increased by \<open>i * L\<close>, every goto
  field \<open>lim1_seq\<close>, \<open>lim2_seq\<close>, \<open>lim3_seq\<close> whose value lies in
  \<open>[loop_start_seq_num, loop_post_seq_num]\<close> is increased by exactly \<open>i * L\<close> and every
  goto outside that range is unchanged.  The fields that hold no sequence index are
  copied as they are.
\<close>

lemma unroll_loop_shifts_gotos:
  assumes "\<forall>sq\<in>set loop. int_fields sq" and "0 \<le> num_loops"
  shows "\<exists>unrolled.
           unroll_loop loop num_loops lo hi = Inr unrolled \<and>
           length unrolled = length loop * nat (num_loops + 1) \<and>
           (\<forall>k < length loop. unrolled ! k = loop ! k) \<and>
           (\<forall>i k. 1 \<le> i \<and> i \<le> num_loops \<and> k < length loop \<longrightarrow>
              (let orig = loop ! k; copy = unrolled ! (nat i * length loop + k);
                   shift = int (length loop) * i
               in copy Ns = Some (VInt (int_field orig Ns + shift)) \<and>
                  (\<forall>j\<in>{1, 2, 3}.
                     copy (lim_seq j) =
                       Some (VInt (if lo \<le> int_field orig (lim_seq j) \<and> int_field orig (lim_seq j) \<le> hi
                                   then int_field orig (lim_seq j) + shift
                                   else int_field orig (lim_seq j)))) \<and>
                  (\<forall>f. f \<notin> {Ns, lim_seq 1, lim_seq 2, lim_seq 3, ctrl_seq} \<longrightarrow> copy f = orig f)))"
proof -
  let ?u = "loop @ concat (map (\<lambda>i. map (shifted_copy (int (length loop) * i) lo hi) loop)
                             [1..num_loops])"
  have "length (concat (map (\<lambda>i. map (shifted_copy (int (length loop) * i) lo hi) loop)
                          [1..num_loops])) = length [1..num_loops] * length loop"
    by (rule length_concat_blocks) simp
  then have len: "length ?u = length loop * nat (num_loops + 1)"
    using assms(2) by (simp add: nat_add_distrib)
  have first: "\<forall>k < length loop. ?u ! k = loop ! k"
    by (simp add: nth_append)
  have copies: "\<forall>i k. 1 \<le> i \<and> i \<le> num_loops \<and> k < length loop \<longrightarrow>
              (let orig = loop ! k; copy = ?u ! (nat i * length loop + k);
                   shift = int (length loop) * i
               in copy Ns = Some (VInt (int_field orig Ns + shift)) \<and>
                  (\<forall>j\<in>{1, 2, 3}.
                     copy (lim_seq j) =
                       Some (VInt (if lo \<le> int_field orig (lim_seq j) \<and> int_field orig (lim_seq j) \<le> hi
                                   then int_field orig (lim_seq j) + shift
                                   else int_field orig (lim_seq j)))) \<and>
                  (\<forall>f. f \<notin> {Ns, lim_seq 1, lim_seq 2, lim_seq 3, ctrl_seq} \<longrightarrow> copy f = orig f))"
  proof (intro allI impI)
    fix i k
    assume "1 \<le> i \<and> i \<le> num_loops \<and> k < length loop"
    then have "?u ! (nat i * length loop + k) = shifted_copy (int (length loop) * i) lo hi (loop ! k)"
      by (simp add: nth_unrolled_copy del: upto.simps)
    then show "let orig = loop ! k; copy = ?u ! (nat i * length loop + k);
                   shift = int (length loop) * i
               in copy Ns = Some (VInt (int_field orig Ns + shift)) \<and>
                  (\<forall>j\<in>{1, 2, 3}.
                     copy (lim_seq j) =
                       Some (VInt (if lo \<le> int_field orig (lim_seq j) \<and> int_field orig (lim_seq j) \<le> hi
                                   then int_field orig (lim_seq j) + shift
                                   else int_field orig (lim_seq j)))) \<and>
                  (\<forall>f. f \<notin> {Ns, lim_seq 1, lim_seq 2, lim_seq 3, ctrl_seq} \<longrightarrow> copy f = orig f)"
      by (simp add: Let_def shifted_copy_def shift_goto_def)
  qed
  show ?thesis
    using unroll_loop_int_fields [OF assms] len first copies by blast
qed

text \<open>
  C10: unrolling with repeat count zero is the identity on the loop body, for every list
  of records and any bounds.
\<close>

theorem unroll_loop_identity: "unroll_loop loop 0 lo hi = Inr loop"
  by (simp add: unroll_loop_def)

lemma adv_cycle_pair_int_fields: "\<forall>sq\<in>set adv_cycle_pair. int_fields sq"
  by (simp add: adv_cycle_pair_def int_fields_def has_int_def create_loop_seq_def)

text \<open>
  The lemma at the two records of an advance-cycle pair at sequence 1, unrolled once
  with the range \<open>[1, 3]\<close>.
\<close>

lemma unroll_loop_shifts_gotos_example:
  "\<exists>unrolled.
     unroll_loop adv_cycle_pair 1 1 3 = Inr unrolled \<and> length unrolled = 4 \<and>
     (unrolled ! 2) Ns = Some (VInt 3) \<and>
     (unrolled ! 2) (lim_seq 1) = Some (VInt 4)"
proof -
  from unroll_loop_shifts_gotos [OF adv_cycle_pair_int_fields, of 1 1 3]
  obtain u where u: "unroll_loop adv_cycle_pair 1 1 3 = Inr u"
    and len: "length u = length adv_cycle_pair * nat (1 + 1)"
    and copies: "\<forall>i k. 1 \<le> i \<and> i \<le> 1 \<and> k < length adv_cycle_pair \<longrightarrow>
              (let orig = adv_cycle_pair ! k; copy = u ! (nat i * length adv_cycle_pair + k);
                   shift = int (length adv_cycle_pair) * i
               in copy Ns = Some (VInt (int_field orig Ns + shift)) \<and>
                  (\<forall>j\<in>{1, 2, 3}.
                     copy (lim_seq j) =
                       Some (VInt (if 1 \<le> int_field orig (lim_seq j) \<and> int_field orig (lim_seq j) \<le> 3
                                   then int_field orig (lim_seq j) + shift
                                   else int_field orig (lim_seq j)))) \<and>
                  (\<forall>f. f \<notin> {Ns, lim_seq 1, lim_seq 2, lim_seq 3, ctrl_seq} \<longrightarrow> copy f = orig f))"
    by auto
  from copies [rule_format, of 1 0]
  have "(u ! 2) Ns = Some (VInt 3) \<and> (u ! 2) (lim_seq 1) = Some (VInt 4)"
    by (simp add: adv_cycle_pair_def Let_def int_field_def create_loop_seq_def numeral_2_eq_2)
  with u len show ?thesis
    by (simp add: adv_cycle_pair_def)
qed

lemma unroll_adv_cycle_pair:
  "unroll_loop adv_cycle_pair 1 1 3 = Inr (adv_cycle_pair @ map (shifted_copy 2 1 3) adv_cycle_pair)"
  using unroll_loop_int_fields [OF adv_cycle_pair_int_fields, of 1 1 3]
  by (simp add: adv_cycle_pair_def)

text \<open>
  The loop-control index is not among the fields that unrolling rewrites.  The first
  record of the advance-cycle pair has \<open>ctrl_seq = 1\<close>, inside the range \<open>[1, 3]\<close>; in
  the first duplicate it is still 1, not \<open>1 + 1 * L\<close>.
\<close>

lemma unroll_loop_keeps_ctrl_seq:
  "\<exists>unrolled.
     unroll_loop adv_cycle_pair 1 1 3 = Inr unrolled \<and>
     (adv_cycle_pair ! 0) ctrl_seq = Some (VInt 1) \<and>
     (unrolled ! (1 * length adv_cycle_pair + 0)) ctrl_seq = Some (VInt 1) \<and>
     (unrolled ! (1 * length adv_cycle_pair + 0)) ctrl_seq \<noteq> Some (VInt (1 + 1 * int (length adv_cycle_pair)))"
  unfolding unroll_adv_cycle_pair
  by (simp add: adv_cycle_pair_def shifted_copy_def create_loop_seq_def)

section \<open>The two passes agree\<close>

lemma sizing_step_unroll_status_frame:
  "sizing_step idx step b st = Inr st' \<Longrightarrow> k \<noteq> idx \<Longrightarrow>
   loop_unroll_status_by_idx st' k = loop_unroll_status_by_idx st k"
  by (auto simp: sizing_step_def Let_def split: list.splits if_splits sum.splits)

lemma sizing_step_ignore_status_frame:
  "sizing_step idx step b st = Inr st' \<Longrightarrow> k \<noteq> idx \<Longrightarrow>
   adv_cycle_ignore_status_by_idx st' k = adv_cycle_ignore_status_by_idx st k"
  by (auto simp: sizing_step_def Let_def split: list.splits if_splits sum.splits)

lemma sizing_loop_status_frame:
  "sizing_loop idx steps st = Inr st' \<Longrightarrow> k < idx \<Longrightarrow>
   loop_unroll_status_by_idx st' k = loop_unroll_status_by_idx st k \<and>
   adv_cycle_ignore_status_by_idx st' k = adv_cycle_ignore_status_by_idx st k"
proof (induction idx steps st rule: sizing_loop.induct)
  case (1 idx step next_step rest st)
  from "1.prems"(1) obtain st1 where
    s: "sizing_step idx step (take 4 (StepType next_step) = ''Loop'') st = Inr st1"
    and l: "sizing_loop (Suc idx) (next_step # rest) st1 = Inr st'"
    by (auto split: sum.splits)
  from "1.IH" [OF s l] "1.prems"(2)
  have "loop_unroll_status_by_idx st' k = loop_unroll_status_by_idx st1 k \<and>
        adv_cycle_ignore_status_by_idx st' k = adv_cycle_ignore_status_by_idx st1 k"
    by simp
  with sizing_step_unroll_status_frame [OF s, of k] sizing_step_ignore_status_frame [OF s, of k]
    "1.prems"(2)
  show ?case by simp
qed simp_all

lemma unroll_loop_length:
  "unroll_loop loop num_loops lo hi = Inr unrolled \<Longrightarrow>
   int (length unrolled) = int (length loop) * (num_loops + 1)"
  by (auto simp: unroll_loop_def split: sum.splits if_splits)

lemma step_counts_agree:
  assumes J: "counts_agree s g"
    and s: "sizing_step idx step b s = Inr s'"
    and g: "generation_step blank_seq sizing end_step_num idx step g = Inr g'"
    and u: "loop_unroll_status_by_idx sizing idx = loop_unroll_status_by_idx s' idx"
    and a: "adv_cycle_ignore_status_by_idx sizing idx = adv_cycle_ignore_status_by_idx s' idx"
  shows "counts_agree s' g'"
proof -
  consider (Do) "take 2 (StepType step) = ''Do''"
    | (Adv) "take 2 (StepType step) \<noteq> ''Do''" "StepType step = ''AdvCycle''"
    | (Loop) "take 2 (StepType step) \<noteq> ''Do''" "StepType step \<noteq> ''AdvCycle''"
        "take 4 (StepType step) = ''Loop''"
    | (Phys) "take 2 (StepType step) \<noteq> ''Do''" "StepType step \<noteq> ''AdvCycle''"
        "take 4 (StepType step) \<noteq> ''Loop''"
    by blast
  then show ?thesis
  proof cases
    case Do
    with J s g show ?thesis
      by (auto simp: counts_agree_def sizing_step_def generation_step_def Let_def
          split: list.splits option.splits)
  next
    case Adv
    with J s g a show ?thesis
      by (auto simp: counts_agree_def sizing_step_def generation_step_def Let_def
          create_advance_cyle_seqs_def
          split: list.splits option.splits if_splits sum.splits)
  next
    case Loop
    with J s g u show ?thesis
      by (auto simp: counts_agree_def sizing_step_def generation_step_def Let_def
          algebra_simps
          split: list.splits option.splits if_splits sum.splits
          dest!: unroll_loop_length)
  next
    case Phys
    with J s g show ?thesis
      by (auto simp: counts_agree_def sizing_step_def generation_step_def Let_def
          split: list.splits option.splits if_splits sum.splits)
  qed
qed

lemma loops_counts_agree:
  "counts_agree s g \<Longrightarrow> sizing_loop idx steps s = Inr sizing \<Longrightarrow>
   generation_loop blank_seq sizing end_step_num idx steps g = Inr st \<Longrightarrow>
   counts_agree sizing st"
proof (induction idx steps s arbitrary: g rule: sizing_loop.induct)
  case (1 idx step next_step rest s)
  from "1.prems"(2) obtain s1 where
    s: "sizing_step idx step (take 4 (StepType next_step) = ''Loop'') s = Inr s1"
    and sl: "sizing_loop (Suc idx) (next_step # rest) s1 = Inr sizing"
    by (auto split: sum.splits)
  from "1.prems"(3) obtain g1 where
    g: "generation_step blank_seq sizing end_step_num idx step g = Inr g1"
    and gl: "generation_loop blank_seq sizing end_step_num (Suc idx) (next_step # rest) g1 = Inr st"
    by (auto split: sum.splits)
  from sizing_loop_status_frame [OF sl, of idx]
  have "loop_unroll_status_by_idx sizing idx = loop_unroll_status_by_idx s1 idx"
    and "adv_cycle_ignore_status_by_idx sizing idx = adv_cycle_ignore_status_by_idx s1 idx"
    by simp_all
  with "1.prems"(1) s g have "counts_agree s1 g1"
    by (rule step_counts_agree)
  from "1.IH" [OF s this sl gl] show ?case .
qed simp_all

lemma sizing_step_inv: "sizing_inv s \<Longrightarrow> sizing_step idx step b s = Inr s' \<Longrightarrow> sizing_inv s'"
  by (auto simp: sizing_inv_def sizing_step_def Let_def algebra_simps
      split: list.splits if_splits sum.splits)

lemma sizing_loop_inv: "sizing_inv s \<Longrightarrow> sizing_loop idx steps s = Inr s' \<Longrightarrow> sizing_inv s'"
proof (induction idx steps s rule: sizing_loop.induct)
  case (1 idx step next_step rest s)
  from "1.prems"(2) obtain s1 where
    s: "sizing_step idx step (take 4 (StepType next_step) = ''Loop'') s = Inr s1"
    and sl: "sizing_loop (Suc idx) (next_step # rest) s1 = Inr s'"
    by (auto split: sum.splits)
  from "1.IH" [OF s sizing_step_inv [OF "1.prems"(1) s] sl] show ?case .
qed simp_all

text \<open>
  C4: whenever the sizing pass and the generation pass both run to the end on a step
  list and the generation pass is left with one list of records, the total that the
  sizing pass has computed (the one remaining count, which is also its running sequence
  number) is exactly the number of records generated.  The statement is about the two
  loops themselves, so it does not rest on the assertions that compare the totals.
\<close>

theorem sizing_total_equals_generation_total:
  assumes "sizing_loop 0 steps (sizing_init steps) = Inr sizing"
    and "generation_loop blank_seq sizing end_step_num 0 steps generation_init = Inr st"
    and "seq_loop_stack st = [seqs]"
  shows "loop_seq_count_stack sizing = [int (length seqs)] \<and>
         curr_seq_num sizing = int (length seqs) \<and>
         length (loop_will_unroll_stack sizing) = 1"
proof -
  have "counts_agree (sizing_init steps) generation_init"
    by (simp add: counts_agree_def sizing_init_def generation_init_def)
  from loops_counts_agree [OF this assms(1,2)] assms(3)
  have c: "loop_seq_count_stack sizing = [int (length seqs)]"
    by (simp add: counts_agree_def)
  have "sizing_inv (sizing_init steps)"
    by (simp add: sizing_inv_def sizing_init_def)
  from sizing_loop_inv [OF this assms(1)] c show ?thesis
    by (simp add: sizing_inv_def)
qed

text \<open>
  Hence the assertions after the two loops never fail: once both loops have returned and
  the generation stack holds one list, the conversion returns that list.
\<close>

lemma final_assertions_hold:
  assumes "steps \<noteq> []" and "StepType (last steps) = ''End''"
    and "sizing_loop 0 steps (sizing_init steps) = Inr sizing"
    and "generation_loop blank_seq sizing (int (length steps)) 0 steps generation_init = Inr st"
    and "seq_loop_stack st = [seqs]"
  shows "create_biologic_seqs_from_maccor_ast blank_seq steps = Inr seqs"
proof -
  have "counts_agree (sizing_init steps) generation_init"
    by (simp add: counts_agree_def sizing_init_def generation_init_def)
  from loops_counts_agree [OF this assms(3,4)] assms(5)
  have c: "loop_seq_count_stack sizing = [int (length seqs)]"
    by (simp add: counts_agree_def)
  have "sizing_inv (sizing_init steps)"
    by (simp add: sizing_inv_def sizing_init_def)
  from sizing_loop_inv [OF this assms(3)] c
  have "curr_seq_num sizing = int (length seqs)" "length (loop_will_unroll_stack sizing) = 1"
    by (simp_all add: sizing_inv_def)
  with assms c show ?thesis
    by (simp add: create_biologic_seqs_from_maccor_ast_def)
qed


section \<open>The conversion on example procedures\<close>

lemmas step_simps = rest_step_def control_step_def loop_step_def

lemmas int_simps = py_int_def py_strip_def is_space_def read_sign_def digitpart_def is_digit_def
  dec_val_def digit_val_def max_str_digits_def

lemmas conversion_simps = create_biologic_seqs_from_maccor_ast_def step_simps
  sizing_init_def sizing_step_def END_SEQ_NUM_def generation_init_def generation_step_def
  create_advance_cyle_seqs_def proc_step_to_seq_def proc_step_control_def entries_list_def
  proc_end_entry_def int_simps convert_time_half_second loop_count_def Let_def

text \<open>
  C2 (the code at a failing input): for the procedure Rest, AdvCycle, End the two
  records of the advance-cycle pair have loop-control targets equal to their own
  indices, 1 and 2, not strictly smaller ones.
\<close>

theorem advance_cycle_pair_loops_to_itself:
  "\<exists>s0 s1 s2.
     create_biologic_seqs_from_maccor_ast example_blank_seq adv_cycle_at_step_2 = Inr [s0, s1, s2] \<and>
     s1 seq_type = Some (VStr ''Loop'') \<and> s1 Ns = Some (VInt 1) \<and> s1 ctrl_seq = Some (VInt 1) \<and>
     s2 seq_type = Some (VStr ''Loop'') \<and> s2 Ns = Some (VInt 2) \<and> s2 ctrl_seq = Some (VInt 2)"
  by (simp add: conversion_simps adv_cycle_at_step_2_def create_loop_seq_def)

text \<open>
  C1 (the code at a failing input): for the procedure Do, Rest, AdvCycle, Loop (count
  2), End the loop is native and one Loop record is appended with repeat count 2, but
  its loop-control target is its own index 1, not the index 0 of the loop's first record.
\<close>

theorem native_loop_record_loops_to_itself:
  "\<exists>s0 s1.
     create_biologic_seqs_from_maccor_ast example_blank_seq native_loop = Inr [s0, s1] \<and>
     s0 Ns = Some (VInt 0) \<and>
     s1 seq_type = Some (VStr ''Loop'') \<and> s1 Ns = Some (VInt 1) \<and>
     s1 loop_repeat = Some (VInt 2) \<and> s1 ctrl_seq = Some (VInt 1)"
  by (simp add: conversion_simps native_loop_def create_loop_seq_def)

text \<open>
  C3 (the code at a failing input): for the procedure Rest, Do, AdvCycle, Rest, Loop
  (count 1), End the loop body of three records at the sequences 1 to 3 is unrolled once
  with the range \<open>[1, 4]\<close>.  The duplicates of the two Loop records of the advance-cycle
  pair have the indices 4 and 5 and their goto indices are increased by 3, but their
  loop-control targets are still 1 and 2, inside the range and not increased by 3: they
  lead back into the first copy of the body.
\<close>

theorem unrolled_loop_record_keeps_loop_target:
  "\<exists>s0 s1 s2 s3 s4 s5 s6.
     create_biologic_seqs_from_maccor_ast example_blank_seq unrolled_adv_cycle_steps =
       Inr [s0, s1, s2, s3, s4, s5, s6] \<and>
     s1 seq_type = Some (VStr ''Loop'') \<and> s1 Ns = Some (VInt 1) \<and>
     s1 (lim_seq 1) = Some (VInt 2) \<and> s1 ctrl_seq = Some (VInt 1) \<and>
     s2 seq_type = Some (VStr ''Loop'') \<and> s2 Ns = Some (VInt 2) \<and>
     s2 (lim_seq 1) = Some (VInt 3) \<and> s2 ctrl_seq = Some (VInt 2) \<and>
     s4 seq_type = Some (VStr ''Loop'') \<and> s4 Ns = Some (VInt 4) \<and>
     s4 (lim_seq 1) = Some (VInt 5) \<and> s4 ctrl_seq = Some (VInt 1) \<and>
     s5 seq_type = Some (VStr ''Loop'') \<and> s5 Ns = Some (VInt 5) \<and>
     s5 (lim_seq 1) = Some (VInt 6) \<and> s5 ctrl_seq = Some (VInt 2)"
  by (simp add: conversion_simps unrolled_adv_cycle_steps_def create_loop_seq_def
      example_blank_seq_def unroll_loop_def unroll_seq_def unroll_goto_def int_of_val_def
      upto_rec1)

text \<open>
  C7 (the code at a failing input): a Voltage end-condition with the operator \<^verbatim>\<open>>\<close>
  fails with the \<^verbatim>\<open>KeyError\<close> of the dictionary subscript, not with the exception for an
  unsupported operator.
\<close>

theorem unsupported_voltage_operator_is_key_error:
  "create_biologic_seqs_from_maccor_ast example_blank_seq voltage_limit_steps = Inl KeyError"
  by (simp add: conversion_simps voltage_limit_steps_def operator_map_def)

text \<open>
  C5 (as stated, refuted): a goto to the End step (sequence 9999, not the following
  sequence 1) leaves the action of the template in place, and a goto over a Do step
  to the following sequence 1 sets the jump flag.
\<close>

theorem jump_flag_follows_step_numbers_not_sequences:
  "(\<exists>s. create_biologic_seqs_from_maccor_ast example_blank_seq goto_end_steps = Inr [s] \<and>
        s Ns = Some (VInt 0) \<and> s (lim_seq 1) = Some (VInt 9999) \<and>
        s (lim_action 1) = Some (VStr ''Next sequence'')) \<and>
   (\<exists>s0 s1 s2.
        create_biologic_seqs_from_maccor_ast example_blank_seq goto_over_do_steps = Inr [s0, s1, s2] \<and>
        s0 Ns = Some (VInt 0) \<and> s0 (lim_seq 1) = Some (VInt 1) \<and>
        s0 (lim_action 1) = Some (VStr ''Goto sequence''))"
  by (simp add: conversion_simps goto_end_steps_def goto_over_do_steps_def example_blank_seq_def
      create_loop_seq_def)

lemma unrolled_loop_steps_run:
  "\<exists>sizing st seqs.
     sizing_loop 0 unrolled_loop_steps (sizing_init unrolled_loop_steps) = Inr sizing \<and>
     generation_loop example_blank_seq sizing 6 0 unrolled_loop_steps generation_init = Inr st \<and>
     seq_loop_stack st = [seqs] \<and> length seqs = 7"
  by (simp add: conversion_simps unrolled_loop_steps_def unroll_loop_def unroll_seq_def
      unroll_goto_def int_of_val_def upto_rec1)

text \<open>
  The theorem of C4 at a procedure whose loop body of two records is unrolled twice.
\<close>

theorem sizing_total_equals_generation_total_witness:
  "\<exists>sizing st seqs.
     sizing_loop 0 unrolled_loop_steps (sizing_init unrolled_loop_steps) = Inr sizing \<and>
     generation_loop example_blank_seq sizing 6 0 unrolled_loop_steps generation_init = Inr st \<and>
     seq_loop_stack st = [seqs] \<and> length seqs = 7 \<and>
     loop_seq_count_stack sizing = [7] \<and> curr_seq_num sizing = 7 \<and>
     length (loop_will_unroll_stack sizing) = 1"
proof -
  from unrolled_loop_steps_run obtain sizing st seqs where
    r: "sizing_loop 0 unrolled_loop_steps (sizing_init unrolled_loop_steps) = Inr sizing"
       "generation_loop example_blank_seq sizing 6 0 unrolled_loop_steps generation_init = Inr st"
       "seq_loop_stack st = [seqs]" and l: "length seqs = 7"
    by blast
  from sizing_total_equals_generation_total [OF r] l r show ?thesis
    by auto
qed


section \<open>End-conditions of a compiled step\<close>

lemma proc_end_entry_parses:
  "proc_end_entry step_num m lb end_step_num n e s = Inr s' \<Longrightarrow> \<exists>g. py_int (Step e) = Inr g"
  by (cases "py_int (Step e)") (simp_all add: proc_end_entry_def)

lemma proc_end_entry_goto:
  "proc_end_entry step_num m lb end_step_num n e s = Inr s' \<Longrightarrow> py_int (Step e) = Inr g \<Longrightarrow>
   s' (lim_seq n) = map_option VInt (m g) \<and>
   s' (lim_action n) =
     (if g \<noteq> step_num + 1 then Some (VStr ''Goto sequence'') else s (lim_action n))"
  unfolding proc_end_entry_def Let_def
  by (simp split: sum.splits option.splits if_splits prod.splits) auto

lemma proc_end_entry_frame:
  "proc_end_entry step_num m lb end_step_num n e s = Inr s' \<Longrightarrow> k \<noteq> n \<Longrightarrow>
   s' (lim_seq k) = s (lim_seq k) \<and> s' (lim_action k) = s (lim_action k)"
  unfolding proc_end_entry_def Let_def
  by (simp split: sum.splits option.splits if_splits prod.splits) auto

lemma proc_end_entries_frame:
  "proc_end_entries step_num m lb end_step_num n es s = Inr s' \<Longrightarrow> k < n \<Longrightarrow>
   s' (lim_seq k) = s (lim_seq k) \<and> s' (lim_action k) = s (lim_action k)"
proof (induction es arbitrary: n s)
  case Nil
  then show ?case by simp
next
  case (Cons e es)
  from Cons.prems(1) obtain s1 where
    e: "proc_end_entry step_num m lb end_step_num n e s = Inr s1"
    and r: "proc_end_entries step_num m lb end_step_num (Suc n) es s1 = Inr s'"
    by (auto split: sum.splits)
  from Cons.IH [OF r] Cons.prems(2) proc_end_entry_frame [OF e, of k]
  show ?case by simp
qed

lemma proc_end_entries_parses:
  "proc_end_entries step_num m lb end_step_num n es s = Inr s' \<Longrightarrow> i < length es \<Longrightarrow>
   \<exists>g. py_int (Step (es ! i)) = Inr g"
proof (induction es arbitrary: n s i)
  case Nil
  then show ?case by simp
next
  case (Cons e es)
  from Cons.prems(1) obtain s1 where
    e: "proc_end_entry step_num m lb end_step_num n e s = Inr s1"
    and r: "proc_end_entries step_num m lb end_step_num (Suc n) es s1 = Inr s'"
    by (auto split: sum.splits)
  show ?case
  proof (cases i)
    case 0
    with proc_end_entry_parses [OF e] show ?thesis by simp
  next
    case (Suc j)
    with Cons.prems(2) have "j < length es" by simp
    from Cons.IH [OF r this] Suc show ?thesis by simp
  qed
qed

lemma proc_end_entries_goto:
  "proc_end_entries step_num m lb end_step_num n es s = Inr s' \<Longrightarrow> i < length es \<Longrightarrow>
   py_int (Step (es ! i)) = Inr g \<Longrightarrow>
   s' (lim_seq (n + i)) = map_option VInt (m g) \<and>
   s' (lim_action (n + i)) =
     (if g \<noteq> step_num + 1 then Some (VStr ''Goto sequence'') else s (lim_action (n + i)))"
proof (induction es arbitrary: n s i)
  case Nil
  then show ?case by simp
next
  case (Cons e es)
  from Cons.prems(1) obtain s1 where
    e: "proc_end_entry step_num m lb end_step_num n e s = Inr s1"
    and r: "proc_end_entries step_num m lb end_step_num (Suc n) es s1 = Inr s'"
    by (auto split: sum.splits)
  show ?case
  proof (cases i)
    case 0
    with Cons.prems(3) have "py_int (Step e) = Inr g" by simp
    from proc_end_entry_goto [OF e this] proc_end_entries_frame [OF r, of n] 0
    show ?thesis by simp
  next
    case (Suc j)
    with Cons.prems have j: "j < length es" "py_int (Step (es ! j)) = Inr g" by simp_all
    from Cons.IH [OF r j] proc_end_entry_frame [OF e, of "Suc n + j"] Suc
    show ?thesis by simp
  qed
qed

lemma proc_report_frame:
  "proc_report n r s = Inr s' \<Longrightarrow>
   s' (lim_seq k) = s (lim_seq k) \<and> s' (lim_action k) = s (lim_action k)"
  unfolding proc_report_def
  by (simp split: sum.splits if_splits prod.splits) auto

lemma proc_reports_frame:
  "proc_reports n rs s = Inr s' \<Longrightarrow>
   s' (lim_seq k) = s (lim_seq k) \<and> s' (lim_action k) = s (lim_action k)"
proof (induction rs arbitrary: n s)
  case Nil
  then show ?case by simp
next
  case (Cons r rs)
  from Cons.prems obtain s1 where
    a: "proc_report n r s = Inr s1" and b: "proc_reports (Suc n) rs s1 = Inr s'"
    by (auto split: sum.splits)
  from Cons.IH [OF b] proc_report_frame [OF a, of k] show ?case by simp
qed

lemma proc_step_control_frame:
  "proc_step_control test_step s = Inr s' \<Longrightarrow> s' (lim_action k) = s (lim_action k)"
  unfolding proc_step_control_def Let_def
  by (simp split: sum.splits if_splits prod.splits option.splits) auto

lemma proc_step_to_seq_stages:
  assumes "proc_step_to_seq blank_seq test_step step_num m lb end_step_num = Inr new_seq"
  shows "\<exists>seq_num s1 s2.
    proc_step_control test_step
          (blank_seq(Ns \<mapsto> VInt seq_num, lim_seq 1 \<mapsto> VInt (seq_num + 1),
                     lim_seq 2 \<mapsto> VInt (seq_num + 1), lim_seq 3 \<mapsto> VInt (seq_num + 1))) = Inr s1 \<and>
    proc_end_entries step_num m lb end_step_num 1 (entries_list (Ends test_step))
              (s1(lim_nb \<mapsto> VInt (int (length (entries_list (Ends test_step)))))) = Inr s2 \<and>
    proc_reports 1 (entries_list (Reports test_step))
              (s2(rec_nb \<mapsto> VInt (int (length (entries_list (Reports test_step)))))) = Inr new_seq"
  using assms unfolding proc_step_to_seq_def Let_def
  by (simp split: option.splits sum.splits if_splits) blast

text \<open>
  C5 (amended): for every step that the step compiler compiles and each of its
  end-conditions, the goto field of the limit slot is the sequence index looked up from
  the step-to-sequence map, and the jump action \<^verbatim>\<open>"Goto sequence"\<close> is written if and only if
  the goto's target step number differs from the number of the step that follows the
  current one; otherwise the slot keeps the action of the template.
\<close>

theorem jump_flag_set_iff_goto_step_differs:
  assumes "proc_step_to_seq blank_seq test_step step_num seq_from_step_num goto_lower_bound
             end_step_num = Inr new_seq"
    and "i < length (entries_list (Ends test_step))"
  shows "\<exists>goto_step_num.
           py_int (Step (entries_list (Ends test_step) ! i)) = Inr goto_step_num \<and>
           new_seq (lim_seq (i + 1)) = map_option VInt (seq_from_step_num goto_step_num) \<and>
           new_seq (lim_action (i + 1)) =
             (if goto_step_num \<noteq> step_num + 1 then Some (VStr ''Goto sequence'')
              else blank_seq (lim_action (i + 1)))"
proof -
  from proc_step_to_seq_stages [OF assms(1)] obtain seq_num s1 s2 where
    c: "proc_step_control test_step
          (blank_seq(Ns \<mapsto> VInt seq_num, lim_seq 1 \<mapsto> VInt (seq_num + 1),
                     lim_seq 2 \<mapsto> VInt (seq_num + 1), lim_seq 3 \<mapsto> VInt (seq_num + 1))) = Inr s1"
    and e: "proc_end_entries step_num seq_from_step_num goto_lower_bound end_step_num 1
              (entries_list (Ends test_step))
              (s1(lim_nb \<mapsto> VInt (int (length (entries_list (Ends test_step)))))) = Inr s2"
    and r: "proc_reports 1 (entries_list (Reports test_step))
              (s2(rec_nb \<mapsto> VInt (int (length (entries_list (Reports test_step)))))) = Inr new_seq"
    by blast
  from proc_end_entries_parses [OF e assms(2)] obtain g where
    g: "py_int (Step (entries_list (Ends test_step) ! i)) = Inr g" by blast
  from proc_step_control_frame [OF c, of "1 + i"]
  have b: "s1 (lim_action (1 + i)) = blank_seq (lim_action (1 + i))" by simp
  from proc_end_entries_goto [OF e assms(2) g] b proc_reports_frame [OF r, of "1 + i"]
  have "new_seq (lim_seq (i + 1)) = map_option VInt (seq_from_step_num g) \<and>
        new_seq (lim_action (i + 1)) =
          (if g \<noteq> step_num + 1 then Some (VStr ''Goto sequence'')
           else blank_seq (lim_action (i + 1)))"
    by (simp add: add.commute)
  with g show ?thesis by blast
qed

text \<open>
  The theorem at a rest step at step 1 whose end-condition goes to step 3, over a Do
  step at step 2: the jump flag is set although the target is the following sequence.
\<close>

theorem jump_flag_set_iff_goto_step_differs_witness:
  "\<exists>new_seq.
     proc_step_to_seq example_blank_seq (rest_step ''003'') 1 [1 \<mapsto> 0, 2 \<mapsto> 1, 3 \<mapsto> 1] 0 6 =
       Inr new_seq \<and>
     py_int ''003'' = Inr 3 \<and>
     new_seq (lim_seq 1) = Some (VInt 1) \<and>
     new_seq (lim_action 1) = Some (VStr ''Goto sequence'')"
proof -
  have "\<exists>s. proc_step_to_seq example_blank_seq (rest_step ''003'') 1
              [1 \<mapsto> 0, 2 \<mapsto> 1, 3 \<mapsto> 1] 0 6 = Inr s"
    by (simp add: conversion_simps)
  then obtain s where s: "proc_step_to_seq example_blank_seq (rest_step ''003'') 1
              [1 \<mapsto> 0, 2 \<mapsto> 1, 3 \<mapsto> 1] 0 6 = Inr s" ..
  have i: "0 < length (entries_list (Ends (rest_step ''003'')))"
    by (simp add: rest_step_def entries_list_def)
  have p: "py_int ''003'' = Inr 3"
    by (simp add: int_simps)
  from jump_flag_set_iff_goto_step_differs [OF s i] p
  have "s (lim_seq 1) = Some (VInt 1) \<and> s (lim_action 1) = Some (VStr ''Goto sequence'')"
    by (simp add: rest_step_def entries_list_def)
  with s p show ?thesis by blast
qed


section \<open>Precision detection and the rescale rule\<close>

subsection \<open>The two regular expressions and the parsers on the parts of a decimal\<close>

lemma match_p10_none: "\<forall>c\<in>set s. c \<noteq> CHR ''e'' \<and> c \<noteq> CHR ''E'' \<Longrightarrow> match_p10 s = None"
  by (induction s) simp_all

lemma match_p10_skip:
  "\<forall>c\<in>set pre. c \<noteq> CHR ''e'' \<and> c \<noteq> CHR ''E'' \<Longrightarrow> match_p10 (pre @ s) = match_p10 s"
  by (induction pre) simp_all

lemma match_sig_figs_skip:
  "\<forall>c\<in>set ip. c \<noteq> CHR ''.'' \<Longrightarrow> match_sig_figs (ip @ s) = match_sig_figs s"
  by (induction ip) simp_all

lemma match_sig_figs_none: "\<forall>c\<in>set s. c \<noteq> CHR ''.'' \<Longrightarrow> match_sig_figs s = None"
  by (induction s) simp_all

lemma digit_chars:
  assumes "is_digit c"
  shows "c \<noteq> CHR ''e''" "c \<noteq> CHR ''E''" "c \<noteq> CHR ''.''" "c \<noteq> CHR ''-''" "c \<noteq> CHR ''+''"
    "c \<noteq> CHR ''_''" "\<not> is_space c"
  using assms by (auto simp: is_digit_def is_space_def)

lemma space_chars:
  assumes "is_space c"
  shows "c \<noteq> CHR ''e''" "c \<noteq> CHR ''E''" "c \<noteq> CHR ''.''" "c \<noteq> CHR ''-''" "c \<noteq> CHR ''+''"
    "c \<noteq> CHR ''_''" "\<not> is_digit c"
  using assms by (auto simp: is_digit_def is_space_def)

lemma sign_chars:
  assumes "is_sign sg" and "c \<in> set sg"
  shows "c \<noteq> CHR ''e''" "c \<noteq> CHR ''E''" "c \<noteq> CHR ''.''" "\<not> is_space c" "\<not> is_digit c"
  using assms by (auto simp: is_sign_def is_digit_def is_space_def)

lemma is_sign_cases: "is_sign sg \<Longrightarrow> sg = [] \<or> sg = ''-'' \<or> sg = ''+''"
  by (auto simp: is_sign_def)

lemma takeWhile_digits_then:
  assumes "\<forall>c\<in>set ds. is_digit c" and "r = [] \<or> \<not> is_digit (hd r)"
  shows "takeWhile is_digit (ds @ r) = ds"
proof -
  have "takeWhile is_digit r = []"
    using assms(2) by (cases r) simp_all
  with assms(1) show ?thesis
    by (simp add: takeWhile_append2)
qed

lemma exp_group_then:
  assumes "is_sign sg" and "ds \<noteq> []" and "\<forall>c\<in>set ds. is_digit c"
    and "r = [] \<or> \<not> is_digit (hd r)"
  shows "exp_group (sg @ ds @ r) = Some (sg @ ds)"
proof -
  note tw = takeWhile_digits_then [OF assms(3,4)]
  from assms(2) obtain x xs where ds: "ds = x # xs" by (cases ds) simp_all
  with assms(3) have x: "is_digit x" by simp
  from is_sign_cases [OF assms(1)] show ?thesis
  proof (elim disjE)
    assume "sg = []"
    moreover have "exp_group (x # xs @ r) = Some (x # xs)"
      using tw digit_chars(4,5) [OF x] unfolding ds by (simp add: exp_group_def)
    ultimately show ?thesis by (simp add: ds)
  next
    assume "sg = ''-''"
    then show ?thesis using tw assms(2) by (simp add: exp_group_def)
  next
    assume "sg = ''+''"
    then show ?thesis using tw assms(2) by (simp add: exp_group_def)
  qed
qed

lemma length_strip_trailing_zeros:
  "length (strip_trailing_zeros ds) = length ds - trailing_zeros ds"
proof -
  have "length (takeWhile (\<lambda>c. c = CHR ''0'') (rev ds)) +
        length (dropWhile (\<lambda>c. c = CHR ''0'') (rev ds)) = length (rev ds)"
    by (simp add: length_append [symmetric] del: length_append length_rev)
  then show ?thesis
    by (simp add: strip_trailing_zeros_def trailing_zeros_def)
qed

text \<open>The two regular expressions on the parts of a decimal.\<close>

lemma fraction_group:
  assumes "\<forall>c\<in>set pre. c \<noteq> CHR ''.''" and "\<forall>c\<in>set fp. is_digit c"
    and "\<forall>c\<in>set r. c \<noteq> CHR ''.''" and "r = [] \<or> \<not> is_digit (hd r)"
  shows "(case match_sig_figs (pre @ CHR ''.'' # fp @ r) of None \<Rightarrow> 0 | Some g \<Rightarrow> int (length g)) =
         int (length (strip_trailing_zeros fp))"
proof -
  have tw: "takeWhile is_digit (fp @ r) = fp"
    by (rule takeWhile_digits_then [OF assms(2,4)])
  have "match_sig_figs (fp @ r) = None"
    by (rule match_sig_figs_none) (use assms(2,3) digit_chars(3) in auto)
  then have "match_sig_figs (CHR ''.'' # fp @ r) =
        (if strip_trailing_zeros fp \<noteq> [] then Some (strip_trailing_zeros fp) else None)"
    unfolding match_sig_figs.simps tw by simp
  then show ?thesis
    unfolding match_sig_figs_skip [OF assms(1)] by simp
qed

lemma no_fraction_group:
  assumes "\<forall>c\<in>set s. c \<noteq> CHR ''.''"
  shows "(case match_sig_figs s of None \<Rightarrow> 0 | Some g \<Rightarrow> int (length g)) = 0"
  by (simp add: match_sig_figs_none [OF assms])

lemma py_strip_pad:
  assumes "\<forall>c\<in>set ws1. is_space c" and "\<forall>c\<in>set ws2. is_space c"
    and "b \<noteq> []" and "\<not> is_space (hd b)" and "\<not> is_space (last b)"
  shows "py_strip (ws1 @ b @ ws2) = b"
proof -
  have "dropWhile is_space (ws1 @ b @ ws2) = dropWhile is_space (b @ ws2)"
    using assms(1) by (simp add: dropWhile_append2)
  also have "\<dots> = b @ ws2"
    using assms(3,4) by (cases b) simp_all
  finally have a: "dropWhile is_space (ws1 @ b @ ws2) = b @ ws2" .
  have "dropWhile is_space (rev ws2 @ rev b) = dropWhile is_space (rev b)"
    by (rule dropWhile_append2) (use assms(2) in simp)
  also have "\<dots> = rev b"
    using assms(3,5) by (cases "rev b") (simp_all add: hd_rev [symmetric] del: rev_is_Nil_conv)
  finally show ?thesis
    by (simp add: py_strip_def a)
qed

lemma read_digits_then:
  assumes "\<forall>c\<in>set ds. is_digit c" and "r = [] \<or> (\<not> is_digit (hd r) \<and> hd r \<noteq> CHR ''_'')"
  shows "read_digits (ds @ r) = (ds, r)"
  using assms by (induction ds) (cases r; simp)+

lemma digitpart_then:
  assumes "\<forall>c\<in>set ds. is_digit c" and "r = [] \<or> (\<not> is_digit (hd r) \<and> hd r \<noteq> CHR ''_'')"
  shows "digitpart (ds @ r) = (ds, r)"
proof (cases ds)
  case Nil
  then show ?thesis using assms(2) by (cases r) (simp_all add: digitpart_def)
next
  case (Cons x xs)
  with assms(1) have "is_digit x" by simp
  with read_digits_then [OF assms] Cons show ?thesis
    by (simp add: digitpart_def)
qed

lemma read_sign_then:
  assumes "is_sign sg" and "b \<noteq> []" and "hd b \<noteq> CHR ''-''" and "hd b \<noteq> CHR ''+''"
  shows "read_sign (sg @ b) = (sg = ''-'', b)"
  using is_sign_cases [OF assms(1)] assms(2,3,4) by (cases b) (auto simp: read_sign_def)

lemma py_int_signed_digits:
  assumes "is_sign sg" and "ds \<noteq> []" and "\<forall>c\<in>set ds. is_digit c"
    and "length ds \<le> max_str_digits"
  shows "py_int (sg @ ds) = Inr (if sg = ''-'' then - int (dec_val ds) else int (dec_val ds))"
proof -
  from assms(2,3) have hd: "is_digit (hd ds)" and lst: "is_digit (last ds)" by simp_all
  have "\<not> is_space (hd (sg @ ds))"
    using is_sign_cases [OF assms(1)] assms(2) digit_chars(7) [OF hd]
    by (auto simp: is_space_def)
  moreover have "\<not> is_space (last (sg @ ds))"
    using assms(2) digit_chars(7) [OF lst] by simp
  ultimately have strip: "py_strip (sg @ ds) = sg @ ds"
    using py_strip_pad [of "[]" "[]" "sg @ ds"] assms(2) by simp
  have sign: "read_sign (sg @ ds) = (sg = ''-'', ds)"
    by (rule read_sign_then [OF assms(1,2)]) (use digit_chars(4,5) [OF hd] in simp_all)
  have "digitpart ds = (ds, [])"
    using digitpart_then [OF assms(3), of "[]"] by simp
  with strip sign assms(2,4) show ?thesis
    by (simp add: py_int_def)
qed

lemma spaces_plain:
  "\<forall>c\<in>set ws. is_space c \<Longrightarrow> \<forall>c\<in>set ws. c \<noteq> CHR ''e'' \<and> c \<noteq> CHR ''E'' \<and> c \<noteq> CHR ''.''"
  by (auto simp: is_space_def)

lemma digits_plain:
  "\<forall>c\<in>set ds. is_digit c \<Longrightarrow> \<forall>c\<in>set ds. c \<noteq> CHR ''e'' \<and> c \<noteq> CHR ''E'' \<and> c \<noteq> CHR ''.''"
  by (induction ds) (simp_all add: digit_chars)

lemma sign_plain:
  "is_sign sg \<Longrightarrow> \<forall>c\<in>set sg. c \<noteq> CHR ''e'' \<and> c \<noteq> CHR ''E'' \<and> c \<noteq> CHR ''.''"
  by (auto simp: is_sign_def)

lemma exponent_tail:
  assumes "case eo of
             None \<Rightarrow> True
           | Some (ec, sg, ds) \<Rightarrow>
               (ec = CHR ''e'' \<or> ec = CHR ''E'') \<and> is_sign sg \<and> ds \<noteq> [] \<and>
               list_all is_digit ds \<and> length ds \<le> max_str_digits"
    and "\<forall>c\<in>set ws. is_space c"
  shows "\<forall>c\<in>set ((case eo of None \<Rightarrow> [] | Some (ec, sg, ds) \<Rightarrow> ec # sg @ ds) @ ws). c \<noteq> CHR ''.''"
    and "(case eo of None \<Rightarrow> [] | Some (ec, sg, ds) \<Rightarrow> ec # sg @ ds) @ ws = [] \<or>
         (\<not> is_digit (hd ((case eo of None \<Rightarrow> [] | Some (ec, sg, ds) \<Rightarrow> ec # sg @ ds) @ ws)) \<and>
          hd ((case eo of None \<Rightarrow> [] | Some (ec, sg, ds) \<Rightarrow> ec # sg @ ds) @ ws) \<noteq> CHR ''_'')"
proof -
  show "\<forall>c\<in>set ((case eo of None \<Rightarrow> [] | Some (ec, sg, ds) \<Rightarrow> ec # sg @ ds) @ ws). c \<noteq> CHR ''.''"
  proof (cases eo)
    case None
    then show ?thesis using spaces_plain [OF assms(2)] by simp
  next
    case (Some t)
    obtain ec sg ds where t: "t = (ec, sg, ds)" by (cases t)
    from assms(1) Some t have "ec \<noteq> CHR ''.''" "is_sign sg" "\<forall>c\<in>set ds. is_digit c"
      by (auto simp: list_all_iff)
    with sign_plain [of sg] digits_plain [of ds] spaces_plain [OF assms(2)] Some t
    show ?thesis by (simp add: ball_Un)
  qed
  show "(case eo of None \<Rightarrow> [] | Some (ec, sg, ds) \<Rightarrow> ec # sg @ ds) @ ws = [] \<or>
         (\<not> is_digit (hd ((case eo of None \<Rightarrow> [] | Some (ec, sg, ds) \<Rightarrow> ec # sg @ ds) @ ws)) \<and>
          hd ((case eo of None \<Rightarrow> [] | Some (ec, sg, ds) \<Rightarrow> ec # sg @ ds) @ ws) \<noteq> CHR ''_'')"
  proof (cases eo)
    case None
    show ?thesis
    proof (cases ws)
      case Nil
      with None show ?thesis by simp
    next
      case (Cons w ws')
      with assms(2) have "is_space w" by simp
      from space_chars(6,7) [OF this] None Cons show ?thesis by simp
    qed
  next
    case (Some t)
    obtain ec sg ds where t: "t = (ec, sg, ds)" by (cases t)
    from assms(1) Some t have "ec = CHR ''e'' \<or> ec = CHR ''E''" by simp
    then have "\<not> is_digit ec \<and> ec \<noteq> CHR ''_''" by (auto simp: is_digit_def)
    with Some t show ?thesis by simp
  qed
qed

lemma exponent_group:
  assumes "\<forall>c\<in>set pre. c \<noteq> CHR ''e'' \<and> c \<noteq> CHR ''E''"
    and "case eo of
             None \<Rightarrow> True
           | Some (ec, sg, ds) \<Rightarrow>
               (ec = CHR ''e'' \<or> ec = CHR ''E'') \<and> is_sign sg \<and> ds \<noteq> [] \<and>
               list_all is_digit ds \<and> length ds \<le> max_str_digits"
    and "\<forall>c\<in>set ws. is_space c"
  shows "(case match_p10 (pre @ (case eo of None \<Rightarrow> [] | Some (ec, sg, ds) \<Rightarrow> ec # sg @ ds) @ ws) of
            None \<Rightarrow> Inr 0
          | Some g \<Rightarrow> py_int g) =
         Inr (case eo of
                None \<Rightarrow> 0
              | Some (ec, sg, ds) \<Rightarrow> if sg = ''-'' then - int (dec_val ds) else int (dec_val ds))"
proof (cases eo)
  case None
  have "match_p10 ws = None"
    by (rule match_p10_none) (use spaces_plain [OF assms(3)] in simp)
  with None show ?thesis
    by (simp add: match_p10_skip [OF assms(1)])
next
  case (Some t)
  obtain ec sg ds where t: "t = (ec, sg, ds)" by (cases t)
  from assms(2) Some t have ec: "ec = CHR ''e'' \<or> ec = CHR ''E''" and sg: "is_sign sg"
    and ds: "ds \<noteq> []" "\<forall>c\<in>set ds. is_digit c" "length ds \<le> max_str_digits"
    by (simp_all add: list_all_iff)
  have ws: "ws = [] \<or> \<not> is_digit (hd ws)"
    using exponent_tail(2) [of None ws, OF _ assms(3)] by auto
  have "match_p10 (ec # sg @ ds @ ws) = Some (sg @ ds)"
    using ec exp_group_then [OF sg ds(1,2) ws] by auto
  then show ?thesis
    unfolding Some t option.case prod.case match_p10_skip [OF assms(1)]
    by (simp add: py_int_signed_digits [OF sg ds])
qed

lemma sig_figs_decimal:
  assumes "is_decimal d"
  shows "get_decimal_sig_figs (literal d) = Inr (precision d)"
proof -
  let ?X = "case exp_part d of None \<Rightarrow> [] | Some (ec, sg, ds) \<Rightarrow> ec # sg @ ds"
  from assms have ws1: "\<forall>c\<in>set (leading d). is_space c" and ws2: "\<forall>c\<in>set (trailing d). is_space c"
    and sg: "is_sign (sign_part d)" and ip: "\<forall>c\<in>set (int_part d). is_digit c"
    and fp: "\<forall>c\<in>set (fraction d). is_digit c"
    and ex: "case exp_part d of
               None \<Rightarrow> True
             | Some (ec, sg, ds) \<Rightarrow>
                 (ec = CHR ''e'' \<or> ec = CHR ''E'') \<and> is_sign sg \<and> ds \<noteq> [] \<and>
                 list_all is_digit ds \<and> length ds \<le> max_str_digits"
    by (simp_all add: is_decimal_def list_all_iff)
  note tail = exponent_tail [OF ex ws2]
  have pre_dot: "\<forall>c\<in>set (leading d @ sign_part d @ int_part d). c \<noteq> CHR ''.''"
    using spaces_plain [OF ws1] sign_plain [OF sg] digits_plain [OF ip] by (simp add: ball_Un)
  have "\<forall>c\<in>set (case frac_part d of None \<Rightarrow> [] | Some fp \<Rightarrow> CHR ''.'' # fp).
          c \<noteq> CHR ''e'' \<and> c \<noteq> CHR ''E''"
  proof (cases "frac_part d")
    case None
    then show ?thesis by simp
  next
    case (Some f)
    with fp have "\<forall>c\<in>set f. is_digit c" by (simp add: fraction_def)
    from digits_plain [OF this] Some show ?thesis by simp
  qed
  then have pre_e: "\<forall>c\<in>set (leading d @ sign_part d @ int_part d @
                 (case frac_part d of None \<Rightarrow> [] | Some fp \<Rightarrow> CHR ''.'' # fp)).
               c \<noteq> CHR ''e'' \<and> c \<noteq> CHR ''E''"
    using spaces_plain [OF ws1] sign_plain [OF sg] digits_plain [OF ip] by (simp add: ball_Un)
  have "(case match_p10 ((leading d @ sign_part d @ int_part d @
                 (case frac_part d of None \<Rightarrow> [] | Some fp \<Rightarrow> CHR ''.'' # fp)) @ ?X @ trailing d) of
            None \<Rightarrow> Inr 0 | Some g \<Rightarrow> py_int g) = Inr (exponent d)"
    unfolding exponent_def by (rule exponent_group [OF pre_e ex ws2])
  then have p10: "(case match_p10 (literal d) of None \<Rightarrow> Inr 0 | Some g \<Rightarrow> py_int g) =
                  Inr (exponent d)"
    by (simp add: literal_def)
  have sf: "(case match_sig_figs (literal d) of None \<Rightarrow> 0 | Some g \<Rightarrow> int (length g)) =
            int (length (fraction d) - trailing_zeros (fraction d))"
  proof (cases "frac_part d")
    case None
    have "\<forall>c\<in>set ((leading d @ sign_part d @ int_part d) @ ?X @ trailing d). c \<noteq> CHR ''.''"
      using pre_dot tail(1) by (simp add: ball_Un)
    from no_fraction_group [OF this] None show ?thesis
      by (simp add: literal_def fraction_def trailing_zeros_def)
  next
    case (Some f)
    with fp have f: "\<forall>c\<in>set f. is_digit c" by (simp add: fraction_def)
    have r: "?X @ trailing d = [] \<or> \<not> is_digit (hd (?X @ trailing d))"
      using tail(2) by blast
    from fraction_group [OF pre_dot f tail(1) r] Some show ?thesis
      by (simp add: literal_def fraction_def length_strip_trailing_zeros)
  qed
  show ?thesis
    unfolding get_decimal_sig_figs_def p10 sum.case Let_def sf precision_def ..
qed

subsection \<open>\<^verbatim>\<open>float()\<close> on a decimal\<close>

lemma lower_char_other:
  assumes "c \<notin> set ''ABCDEFGHIJKLMNOPQRSTUVWXYZ''"
  shows "lower_char c = c"
proof -
  have "map_of (zip ''ABCDEFGHIJKLMNOPQRSTUVWXYZ'' ''abcdefghijklmnopqrstuvwxyz'') c = None"
    using assms by (subst map_of_zip_is_None) simp_all
  then show ?thesis by (simp only: lower_char_def option.case)
qed

lemma lower_char_plain: "is_digit c \<or> c = CHR ''.'' \<Longrightarrow> lower_char c = c"
  by (rule lower_char_other) (auto simp: is_digit_def)

lemma not_inf_nan:
  assumes "b \<noteq> []" and "is_digit (hd b) \<or> hd b = CHR ''.''"
  shows "map lower_char b \<noteq> ''inf'' \<and> map lower_char b \<noteq> ''infinity'' \<and> map lower_char b \<noteq> ''nan''"
proof -
  from assms(1) obtain c cs where b: "b = c # cs" by (cases b) simp_all
  with assms(2) have c: "is_digit c \<or> c = CHR ''.''" by simp
  then have "c \<noteq> CHR ''i'' \<and> c \<noteq> CHR ''n''" by (auto simp: is_digit_def)
  with lower_char_plain [OF c] b show ?thesis by simp
qed

lemma parse_exponent_parts:
  assumes "case eo of
             None \<Rightarrow> True
           | Some (ec, sg, ds) \<Rightarrow>
               (ec = CHR ''e'' \<or> ec = CHR ''E'') \<and> is_sign sg \<and> ds \<noteq> [] \<and>
               list_all is_digit ds \<and> length ds \<le> max_str_digits"
  shows "parse_exponent (case eo of None \<Rightarrow> [] | Some (ec, sg, ds) \<Rightarrow> ec # sg @ ds) =
         Some (case eo of
                 None \<Rightarrow> 0
               | Some (ec, sg, ds) \<Rightarrow> if sg = ''-'' then - int (dec_val ds) else int (dec_val ds))"
proof (cases eo)
  case None
  then show ?thesis by (simp add: parse_exponent_def)
next
  case (Some t)
  obtain ec sg ds where t: "t = (ec, sg, ds)" by (cases t)
  from assms Some t have ec: "ec = CHR ''e'' \<or> ec = CHR ''E''" and sg: "is_sign sg"
    and ds: "ds \<noteq> []" "\<forall>c\<in>set ds. is_digit c"
    by (simp_all add: list_all_iff)
  from ds have hd: "is_digit (hd ds)" by simp
  have sign: "read_sign (sg @ ds) = (sg = ''-'', ds)"
    by (rule read_sign_then [OF sg ds(1)]) (use digit_chars(4,5) [OF hd] in simp_all)
  have dp: "digitpart ds = (ds, [])"
    using digitpart_then [OF ds(2), of "[]"] by simp
  from ec show ?thesis
    unfolding Some t option.case prod.case
    by (auto simp: parse_exponent_def sign dp ds(1))
qed

lemma parse_decimal_decimal:
  assumes "is_decimal d"
  shows "parse_decimal
           (int_part d @ (case frac_part d of None \<Rightarrow> [] | Some fp \<Rightarrow> CHR ''.'' # fp) @
            (case exp_part d of None \<Rightarrow> [] | Some (ec, sg, ds) \<Rightarrow> ec # sg @ ds)) =
         Some (dec_val (int_part d @ fraction d), exponent d - int (length (fraction d)))"
proof -
  let ?X = "case exp_part d of None \<Rightarrow> [] | Some (ec, sg, ds) \<Rightarrow> ec # sg @ ds"
  from assms have ip: "\<forall>c\<in>set (int_part d). is_digit c"
    and fp: "\<forall>c\<in>set (fraction d). is_digit c"
    and ne: "int_part d @ fraction d \<noteq> []"
    and ex: "case exp_part d of
               None \<Rightarrow> True
             | Some (ec, sg, ds) \<Rightarrow>
                 (ec = CHR ''e'' \<or> ec = CHR ''E'') \<and> is_sign sg \<and> ds \<noteq> [] \<and>
                 list_all is_digit ds \<and> length ds \<le> max_str_digits"
    by (simp_all add: is_decimal_def list_all_iff)
  have x: "?X = [] \<or> (\<not> is_digit (hd ?X) \<and> hd ?X \<noteq> CHR ''_'')"
    using exponent_tail(2) [OF ex, of "[]"] by simp
  have pe: "parse_exponent ?X = Some (exponent d)"
    unfolding exponent_def by (rule parse_exponent_parts [OF ex])
  show ?thesis
  proof (cases "frac_part d")
    case None
    then have f: "fraction d = []" by (simp add: fraction_def)
    have "digitpart (int_part d @ ?X) = (int_part d, ?X)"
      by (rule digitpart_then [OF ip x])
    moreover have "(case ?X of [] \<Rightarrow> ([], ?X) | c # cs \<Rightarrow> if c = CHR ''.'' then digitpart cs else ([], ?X)) =
                   ([], ?X)"
      using exponent_tail(1) [OF ex, of "[]"] by (cases ?X) simp_all
    ultimately show ?thesis
      using ne f pe None by (simp add: parse_decimal_def)
  next
    case (Some f)
    then have f: "fraction d = f" by (simp add: fraction_def)
    have "digitpart (int_part d @ CHR ''.'' # f @ ?X) = (int_part d, CHR ''.'' # f @ ?X)"
      by (rule digitpart_then [OF ip]) (simp add: is_digit_def)
    moreover have "digitpart (f @ ?X) = (f, ?X)"
      by (rule digitpart_then [OF _ x]) (use fp f in simp)
    ultimately show ?thesis
      using ne f pe Some by (simp add: parse_decimal_def)
  qed
qed

lemma py_float_decimal:
  assumes "is_decimal d"
  shows "\<exists>num. py_float (literal d) = Inr num"
proof -
  let ?F = "case frac_part d of None \<Rightarrow> [] | Some fp \<Rightarrow> CHR ''.'' # fp"
  let ?X = "case exp_part d of None \<Rightarrow> [] | Some (ec, sg, ds) \<Rightarrow> ec # sg @ ds"
  let ?b = "int_part d @ ?F @ ?X"
  from assms have ws1: "\<forall>c\<in>set (leading d). is_space c" and ws2: "\<forall>c\<in>set (trailing d). is_space c"
    and sg: "is_sign (sign_part d)" and ip: "\<forall>c\<in>set (int_part d). is_digit c"
    and fp: "\<forall>c\<in>set (fraction d). is_digit c"
    and ne: "int_part d @ fraction d \<noteq> []"
    and ex: "case exp_part d of
               None \<Rightarrow> True
             | Some (ec, sg, ds) \<Rightarrow>
                 (ec = CHR ''e'' \<or> ec = CHR ''E'') \<and> is_sign sg \<and> ds \<noteq> [] \<and>
                 list_all is_digit ds \<and> length ds \<le> max_str_digits"
    by (simp_all add: is_decimal_def list_all_iff)
  have b_ne: "?b \<noteq> []"
    using ne by (auto simp: fraction_def split: option.splits)
  have b_hd: "is_digit (hd ?b) \<or> hd ?b = CHR ''.''"
  proof (cases "int_part d")
    case Nil
    with ne obtain f where "frac_part d = Some f"
      by (auto simp: fraction_def split: option.splits)
    with Nil show ?thesis by simp
  next
    case (Cons x xs)
    with ip show ?thesis by simp
  qed
  have x_sp: "\<forall>c\<in>set ?X. \<not> is_space c"
  proof (cases "exp_part d")
    case None
    then show ?thesis by simp
  next
    case (Some t)
    obtain ec es ed where t: "t = (ec, es, ed)" by (cases t)
    from ex Some t have "ec = CHR ''e'' \<or> ec = CHR ''E''" "is_sign es" "\<forall>c\<in>set ed. is_digit c"
      by (simp_all add: list_all_iff)
    then have "\<not> is_space ec" "\<forall>c\<in>set es. \<not> is_space c" "\<forall>c\<in>set ed. \<not> is_space c"
      using sign_chars(4) digit_chars(7) by (auto simp: is_space_def)
    with Some t show ?thesis by (simp add: ball_Un)
  qed
  have f_sp: "\<forall>c\<in>set ?F. \<not> is_space c"
  proof (cases "frac_part d")
    case None
    then show ?thesis by simp
  next
    case (Some f)
    with fp have "\<forall>c\<in>set f. \<not> is_space c"
      using digit_chars(7) by (simp add: fraction_def)
    with Some show ?thesis by (simp add: is_space_def)
  qed
  have "\<forall>c\<in>set (sign_part d). \<not> is_space c" "\<forall>c\<in>set (int_part d). \<not> is_space c"
    using sg ip sign_chars(4) digit_chars(7) by blast+
  with x_sp f_sp have all: "\<forall>c\<in>set (sign_part d @ ?b). \<not> is_space c"
    by (simp add: ball_Un)
  have sb_ne: "sign_part d @ ?b \<noteq> []" using b_ne by simp
  have "hd (sign_part d @ ?b) \<in> set (sign_part d @ ?b)" "last (sign_part d @ ?b) \<in> set (sign_part d @ ?b)"
    using sb_ne by (simp_all del: set_append hd_append2 last_appendR last_append)
  with all have "\<not> is_space (hd (sign_part d @ ?b))" "\<not> is_space (last (sign_part d @ ?b))"
    by blast+
  from py_strip_pad [OF ws1 ws2 sb_ne this]
  have strip: "py_strip (literal d) = sign_part d @ ?b"
    by (simp add: literal_def)
  have "hd ?b \<noteq> CHR ''-'' \<and> hd ?b \<noteq> CHR ''+''"
    using b_hd digit_chars(4,5) by auto
  with read_sign_then [OF sg b_ne]
  have sign: "read_sign (sign_part d @ ?b) = (sign_part d = ''-'', ?b)"
    by simp
  note inf = not_inf_nan [OF b_ne b_hd]
  note pd = parse_decimal_decimal [OF assms]
  show ?thesis
    unfolding py_float_def strip sign prod.case pd
    using inf by simp
qed

subsection \<open>The converters and the rescale rule\<close>

lemma rnd_1e_3: "rnd (1 / 1000) = Fin (1152921504606847 / 1152921504606846976)"
  unfolding rnd_def Let_def
  apply (simp add: ilog2_def)
  apply (simp add: pow2_def)
  apply (simp add: round_half_even_def)
  done

lemma rnd_1: "rnd 1 = Fin 1"
  unfolding rnd_def Let_def
  apply (simp add: ilog2_def)
  apply (simp add: pow2_def)
  apply (simp add: round_half_even_def)
  done

lemma rnd_1e3: "rnd 1000 = Fin 1000"
  unfolding rnd_def Let_def
  apply (simp add: ilog2_def)
  apply (simp add: pow2_def)
  apply (simp add: round_half_even_def)
  done

lemma rnd_1e6: "rnd 1000000 = Fin 1000000"
  unfolding rnd_def Let_def
  apply (simp add: ilog2_def)
  apply (simp add: pow2_def)
  apply (simp add: round_half_even_def)
  done

lemma rnd_1e9: "rnd 1000000000 = Fin 1000000000"
  unfolding rnd_def Let_def
  apply (simp add: ilog2_def)
  apply (simp add: pow2_def)
  apply (simp add: round_half_even_def)
  done

lemma rnd_1e12: "rnd 1000000000000 = Fin 1000000000000"
  unfolding rnd_def Let_def
  apply (simp add: ilog2_def)
  apply (simp add: pow2_def)
  apply (simp add: round_half_even_def)
  done

text \<open>The float constants of the converters are the powers of ten of the ladders.\<close>

lemma float_pow10_simps:
  "float_pow10 0 = Fin 1" "float_pow10 3 = Fin 1000" "float_pow10 6 = Fin 1000000"
  "float_pow10 9 = Fin 1000000000" "float_pow10 12 = Fin 1000000000000"
  "float_pow10 (- 3) = rnd (1 / 1000)" "float_pow10 (- 6) = rnd (1 / 1000000)"
  "float_pow10 (- 9) = rnd (1 / 1000000000)"
  by (simp_all add: float_pow10_def pow10_def rnd_1 rnd_1e3 rnd_1e6 rnd_1e9 rnd_1e12)

lemma flt_mono: "flt x (Fin a) \<Longrightarrow> a \<le> b \<Longrightarrow> flt x (Fin b)"
  by (cases x) (auto simp: flt_def)

lemma below_nano_micro: "flt num (rnd (1 / 1000000000)) \<Longrightarrow> flt num (rnd (1 / 1000000))"
  by (simp add: rnd_1e_9 rnd_1e_6) (erule flt_mono, simp)

lemma below_micro_milli: "flt num (rnd (1 / 1000000)) \<Longrightarrow> flt num (rnd (1 / 1000))"
  by (simp add: rnd_1e_3 rnd_1e_6) (erule flt_mono, simp)

lemma below_milli_one: "flt num (rnd (1 / 1000)) \<Longrightarrow> flt num (Fin 1)"
  by (simp add: rnd_1e_3) (erule flt_mono, simp)

lemma below_one_kilo: "flt num (Fin 1) \<Longrightarrow> flt num (Fin 1000)"
  by (erule flt_mono) simp

lemma below_kilo_mega: "flt num (Fin 1000) \<Longrightarrow> flt num (Fin 1000000)"
  by (erule flt_mono) simp

text \<open>
  Each converter is the rescale rule on its ladder.  The converters test the smallest
  unit first; the thresholds are ordered, so this is the same choice as stepping down
  from the largest unit.
\<close>

lemma convert_volts_rescales:
  assumes "get_decimal_sig_figs s = Inr p" and "py_float s = Inr num"
  shows "convert_volts s = Inr (rescale volt_units num p)"
  by (simp add: convert_volts_def assms volt_units_def in_unit_def float_pow10_simps)

lemma convert_amps_rescales:
  assumes "get_decimal_sig_figs s = Inr p" and "py_float s = Inr num"
  shows "convert_amps s = Inr (rescale amp_units num p)"
  using below_nano_micro [of num] below_micro_milli [of num] below_milli_one [of num]
  by (auto simp: convert_amps_def assms amp_units_def in_unit_def float_pow10_simps)

lemma convert_watts_rescales:
  assumes "get_decimal_sig_figs s = Inr p" and "py_float s = Inr num"
  shows "convert_watts s = Inr (rescale watt_units num p)"
  using below_milli_one [of num]
  by (auto simp: convert_watts_def assms watt_units_def in_unit_def float_pow10_simps)

lemma convert_ohms_rescales:
  assumes "get_decimal_sig_figs s = Inr p" and "py_float s = Inr num"
  shows "convert_ohms s = Inr (rescale ohm_units num p)"
  using below_milli_one [of num] below_one_kilo [of num] below_kilo_mega [of num]
  by (auto simp: convert_ohms_def assms ohm_units_def in_unit_def float_pow10_simps)

text \<open>
  C6 (amended): for every decimal magnitude string the detected precision is the number
  of digits of the fraction, its trailing zeros not counted, minus the exponent's power
  of ten; \<^verbatim>\<open>float()\<close> reads the string, and each of the four magnitude converters emits
  what the rescale rule gives on its ladder of units: it steps down to the next smaller
  unit exactly when the value is below 1 in the current unit or the precision exceeds 3
  digits at the current scale, and emits the value multiplied into the unit it reaches,
  formatted to three decimals, with that unit's name.
\<close>

theorem precision_and_rescale_of_decimal:
  assumes "is_decimal d"
  shows "get_decimal_sig_figs (literal d) = Inr (precision d) \<and>
         (\<exists>num. py_float (literal d) = Inr num \<and>
            convert_volts (literal d) = Inr (rescale volt_units num (precision d)) \<and>
            convert_amps (literal d) = Inr (rescale amp_units num (precision d)) \<and>
            convert_watts (literal d) = Inr (rescale watt_units num (precision d)) \<and>
            convert_ohms (literal d) = Inr (rescale ohm_units num (precision d)))"
proof -
  note p = sig_figs_decimal [OF assms]
  from py_float_decimal [OF assms] obtain num where num: "py_float (literal d) = Inr num" ..
  from convert_volts_rescales [OF p num] convert_amps_rescales [OF p num]
    convert_watts_rescales [OF p num] convert_ohms_rescales [OF p num] p num
  show ?thesis by blast
qed

subsection \<open>Examples\<close>

lemma rnd_1_1: "rnd (11 / 10) = Fin (2476979795053773 / 2251799813685248)"
  unfolding rnd_def Let_def
  apply (simp add: ilog2_def)
  apply (simp add: pow2_def)
  apply (simp add: round_half_even_def)
  done

lemma rnd_1_1001: "rnd (11001 / 10000) = Fin (4954409950070283 / 4503599627370496)"
  unfolding rnd_def Let_def
  apply (simp add: ilog2_def)
  apply (simp add: pow2_def)
  apply (simp add: round_half_even_def)
  done

lemma fmul_1_1001_1000:
  "fmul (Fin (4954409950070283 / 4503599627370496)) (Fin 1000) = Fin (4838290966865511 / 4398046511104)"
  unfolding fmul_def rnd_def Let_def
  apply (simp add: ilog2_def)
  apply (simp add: pow2_def)
  apply (simp add: round_half_even_def)
  done

lemma py_float_1_1000: "py_float ''1.1000'' = Inr (Fin (2476979795053773 / 2251799813685248))"
  by (simp add: parse_simps rnd_1_1)

lemma py_float_1_1001: "py_float ''1.1001'' = Inr (Fin (4954409950070283 / 4503599627370496))"
  by (simp add: parse_simps rnd_1_1001)

lemma sig_figs_1_1000: "get_decimal_sig_figs ''1.1000'' = Inr 1"
  by (simp add: get_decimal_sig_figs_def is_digit_def strip_trailing_zeros_def)

lemma format_1_1: "format_3f (Fin (2476979795053773 / 2251799813685248)) = ''1.100''"
  by (simp add: format_3f_def fixed3_def round_half_even_def digit_char_def)

lemma format_1100_1: "format_3f (Fin (4838290966865511 / 4398046511104)) = ''1100.100''"
  by (simp add: format_3f_def fixed3_def round_half_even_def digit_char_def)

lemma convert_volts_1_1000: "convert_volts ''1.1000'' = Inr (''1.100'', ''V'')"
  by (simp add: convert_volts_def sig_figs_1_1000 py_float_1_1000 flt_def format_1_1)

text \<open>
  C6 (as stated, refuted): the string \<^verbatim>\<open>"1.1000"\<close> has four explicit fractional digits
  and a value of at least 1, but its detected precision is 1 and it is emitted in V.
\<close>

theorem trailing_zeros_not_counted:
  "get_decimal_sig_figs ''1.1000'' = Inr 1 \<and> get_decimal_sig_figs ''1.1000'' \<noteq> Inr 4 \<and>
   convert_volts ''1.1000'' = Inr (''1.100'', ''V'')"
  by (simp add: sig_figs_1_1000 convert_volts_1_1000)

lemmas decimal_simps = is_decimal_def is_sign_def is_digit_def is_space_def fraction_def
  max_str_digits_def literal_def precision_def trailing_zeros_def exponent_def dec_val_def
  digit_val_def

text \<open>
  The theorem at \<^verbatim>\<open>"1.1000"\<close>, with precision 1 and emitted in V, at \<^verbatim>\<open>"1.1001"\<close>, with
  precision 4 and emitted in mV, and at an integer, a signed decimal after a space and
  a decimal with an exponent and no fraction.
\<close>

theorem precision_and_rescale_of_decimal_witness:
  "get_decimal_sig_figs ''1.1000'' = Inr 1 \<and>
   convert_volts ''1.1000'' = Inr (''1.100'', ''V'') \<and>
   get_decimal_sig_figs ''1.1001'' = Inr 4 \<and>
   convert_volts ''1.1001'' = Inr (''1100.100'', ''mV'') \<and>
   get_decimal_sig_figs ''5'' = Inr 0 \<and>
   get_decimal_sig_figs '' -1.5'' = Inr 1 \<and>
   get_decimal_sig_figs ''1e-5'' = Inr 5"
proof -
  let ?d1 = "\<lparr>leading = [], sign_part = [], int_part = ''1'', frac_part = Some ''1000'',
              exp_part = None, trailing = []\<rparr>"
  let ?d2 = "\<lparr>leading = [], sign_part = [], int_part = ''1'', frac_part = Some ''1001'',
              exp_part = None, trailing = []\<rparr>"
  let ?d3 = "\<lparr>leading = [], sign_part = [], int_part = ''5'', frac_part = None,
              exp_part = None, trailing = []\<rparr>"
  let ?d4 = "\<lparr>leading = '' '', sign_part = ''-'', int_part = ''1'', frac_part = Some ''5'',
              exp_part = None, trailing = []\<rparr>"
  let ?d5 = "\<lparr>leading = [], sign_part = [], int_part = ''1'', frac_part = None,
              exp_part = Some (CHR ''e'', ''-'', ''5''), trailing = []\<rparr>"
  have d: "is_decimal ?d1" "is_decimal ?d2" "is_decimal ?d3" "is_decimal ?d4" "is_decimal ?d5"
    by (simp_all add: decimal_simps)
  have l: "literal ?d1 = ''1.1000''" "literal ?d2 = ''1.1001''" "literal ?d3 = ''5''"
    "literal ?d4 = '' -1.5''" "literal ?d5 = ''1e-5''"
    by (simp_all add: decimal_simps)
  have p: "precision ?d1 = 1" "precision ?d2 = 4" "precision ?d3 = 0" "precision ?d4 = 1"
    "precision ?d5 = 5"
    by (simp_all add: decimal_simps)
  note t = precision_and_rescale_of_decimal
  from t [OF d(1)] have s1: "get_decimal_sig_figs ''1.1000'' = Inr 1"
    and "\<exists>num. py_float ''1.1000'' = Inr num \<and>
           convert_volts ''1.1000'' = Inr (rescale volt_units num 1)"
    unfolding l p by blast+
  then have "convert_volts ''1.1000'' =
             Inr (rescale volt_units (Fin (2476979795053773 / 2251799813685248)) 1)"
    by (auto simp: py_float_1_1000)
  then have v1: "convert_volts ''1.1000'' = Inr (''1.100'', ''V'')"
    by (simp add: volt_units_def in_unit_def float_pow10_simps flt_def format_1_1)
  from t [OF d(2)] have s2: "get_decimal_sig_figs ''1.1001'' = Inr 4"
    and "\<exists>num. py_float ''1.1001'' = Inr num \<and>
           convert_volts ''1.1001'' = Inr (rescale volt_units num 4)"
    unfolding l p by blast+
  then have "convert_volts ''1.1001'' =
             Inr (rescale volt_units (Fin (4954409950070283 / 4503599627370496)) 4)"
    by (auto simp: py_float_1_1001)
  then have v2: "convert_volts ''1.1001'' = Inr (''1100.100'', ''mV'')"
    by (simp add: volt_units_def in_unit_def float_pow10_simps fmul_1_1001_1000 format_1100_1)
  from t [OF d(3)] have s3: "get_decimal_sig_figs ''5'' = Inr 0"
    unfolding l p by blast
  from t [OF d(4)] have s4: "get_decimal_sig_figs '' -1.5'' = Inr 1"
    unfolding l p by blast
  from t [OF d(5)] have s5: "get_decimal_sig_figs ''1e-5'' = Inr 5"
    unfolding l p by blast
  from s1 v1 s2 v2 s3 s4 s5 show ?thesis by blast
qed

section \<open>Comparison operators of the limit slots\<close>

lemma operator_map_cases:
  "operator_map oper = Some c \<Longrightarrow> (oper = ''>='' \<and> c = ''>'') \<or> (oper = ''<='' \<and> c = ''<'')"
  by (auto simp: operator_map_def split: if_splits)

text \<open>
  What holds of C7: an end-condition that is compiled has kind StepTime with the
  operator \<^verbatim>\<open>=\<close>, emitted as \<^verbatim>\<open>>\<close>, or kind Voltage or Current with \<^verbatim>\<open>>=\<close> or \<^verbatim>\<open><=\<close>,
  emitted as \<^verbatim>\<open>>\<close> or \<^verbatim>\<open><\<close>.
\<close>

lemma proc_end_entry_comparison:
  assumes "proc_end_entry step_num m lb end_step_num n e s = Inr s'"
  shows "(EndType e = ''StepTime'' \<and> Oper e = ''='' \<and> s' (lim_comp n) = Some (VStr ''>'')) \<or>
         (EndType e \<in> {''Voltage'', ''Current''} \<and>
          ((Oper e = ''>='' \<and> s' (lim_comp n) = Some (VStr ''>'')) \<or>
           (Oper e = ''<='' \<and> s' (lim_comp n) = Some (VStr ''<''))))"
  using assms unfolding proc_end_entry_def Let_def
  by (simp split: sum.splits option.splits if_splits prod.splits)
     (auto dest!: operator_map_cases)

end
